theory Spec2Isabelle
  imports Main "HOL-Library.Sublist" "HOL-Library.Word"
begin

unbundle bit_operations_syntax

section \<open>The mongo agent package of juju: agent/mongo/mongo.go\<close>

text \<open>
  A shallow embedding of \<^verbatim>\<open>agent/mongo/mongo.go\<close>. Pure helpers become HOL functions;
  everything that touches the supervisor (upstart), the filesystem or the database
  takes a \<open>world\<close> and returns the new one, and every call that leaves the package
  is appended to the world's \<open>trace\<close> together with its outcome. Logging calls
  (\<^verbatim>\<open>logger.Debugf\<close> and friends) and \<^verbatim>\<open>net.InterfaceAddrs\<close>, whose result is only
  logged and whose error is discarded, have no effect that the package observes and are
  left out.
\<close>

subsection \<open>Formatting: \<^verbatim>\<open>fmt.Sprint\<close> and the \<^verbatim>\<open>%d\<close> verb on an int\<close>

definition digit :: "nat \<Rightarrow> char" where
  "digit d = ''0123456789'' ! d"

fun showNat :: "nat \<Rightarrow> string" where
  "showNat n = (if n < 10 then [digit n] else showNat (n div 10) @ [digit (n mod 10)])"

declare showNat.simps [simp del]

definition showInt :: "int \<Rightarrow> string" where
  "showInt i = (if i < 0 then CHR ''-'' # showNat (nat (- i)) else showNat (nat i))"

subsection \<open>Paths: \<^verbatim>\<open>path.Clean\<close> and \<^verbatim>\<open>path.Join\<close> of the Go standard library\<close>

text \<open>
  \<^verbatim>\<open>path.Clean\<close> scans its argument once, writing into a buffer \<open>out\<close>; \<open>dotdot\<close> is the
  index in the buffer below which a \<^verbatim>\<open>..\<close> element may not backtrack. \<open>backtrackTo\<close>
  is its inner loop \<^verbatim>\<open>for out.w > dotdot && out.index(out.w) != '/' { out.w-- }\<close>.
\<close>

function backtrackTo :: "string \<Rightarrow> nat \<Rightarrow> nat \<Rightarrow> nat" where
  "backtrackTo buf dotdot w =
     (if w > dotdot \<and> buf ! w \<noteq> CHR ''/'' then backtrackTo buf dotdot (w - 1) else w)"
  by pat_completeness auto
termination
  by (relation "measure (\<lambda>(buf, dotdot, w). w)") auto

declare backtrackTo.simps [simp del]

function cleanLoop :: "bool \<Rightarrow> string \<Rightarrow> string \<times> nat \<Rightarrow> string \<times> nat" where
  "cleanLoop rooted rest st =
     (case rest of
        [] \<Rightarrow> st
      | c # r1 \<Rightarrow>
          (let out = fst st; dotdot = snd st in
           if c = CHR ''/'' then cleanLoop rooted r1 st
           else if c = CHR ''.'' \<and> (r1 = [] \<or> hd r1 = CHR ''/'') then cleanLoop rooted r1 st
           else if c = CHR ''.'' \<and> hd r1 = CHR ''.'' \<and> (tl r1 = [] \<or> hd (tl r1) = CHR ''/'') then
             (if length out > dotdot then
                cleanLoop rooted (tl r1) (take (backtrackTo out dotdot (length out - 1)) out, dotdot)
              else if \<not> rooted then
                (let out' = (if length out > 0 then out @ ''/'' else out) @ ''..''
                 in cleanLoop rooted (tl r1) (out', length out'))
              else cleanLoop rooted (tl r1) st)
           else
             (let out' = (if (rooted \<and> length out \<noteq> 1) \<or> (\<not> rooted \<and> length out \<noteq> 0)
                          then out @ ''/'' else out)
              in cleanLoop rooted (dropWhile (\<lambda>x. x \<noteq> CHR ''/'') rest)
                   (out' @ takeWhile (\<lambda>x. x \<noteq> CHR ''/'') rest, dotdot))))"
  by pat_completeness auto
termination
proof (relation "measure (\<lambda>(rooted, rest, st). length rest)")
  show "wf (measure (\<lambda>(rooted, rest, st). length rest))"
    by simp
next
  fix rooted :: bool and rest :: string and st :: "string \<times> nat" and c r1 x xa xb
  assume "rest = c # r1" and "c \<noteq> CHR ''/''"
  then have "length (dropWhile (\<lambda>x. x \<noteq> CHR ''/'') rest) \<le> length r1"
    by (simp add: length_dropWhile_le)
  then show "((rooted, dropWhile (\<lambda>x. x \<noteq> CHR ''/'') rest, xb @ takeWhile (\<lambda>x. x \<noteq> CHR ''/'') rest, xa),
              rooted, rest, st) \<in> measure (\<lambda>(rooted, rest, st). length rest)"
    using \<open>rest = c # r1\<close> by simp
qed (auto simp: less_Suc_eq_le intro: le_trans [OF length_tl [THEN eq_refl]])

declare cleanLoop.simps [simp del]

definition path_Clean :: "string \<Rightarrow> string" where
  "path_Clean p =
     (if p = [] then ''.''
      else
        (let rooted = (hd p = CHR ''/'');
             out = fst (cleanLoop rooted (if rooted then tl p else p)
                          (if rooted then (''/'', 1) else ([], 0)))
         in if length out = 0 then ''.'' else out))"

text \<open>
  \<^verbatim>\<open>path.Join\<close> drops leading empty elements, joins the rest with slashes and cleans
  the result; with no non-empty element it returns the empty string. On the platform
  the agent runs on, \<^verbatim>\<open>filepath.Join\<close> is the same function.
\<close>

fun joinWith :: "string \<Rightarrow> string list \<Rightarrow> string" where
  "joinWith sep [] = []"
| "joinWith sep [x] = x"
| "joinWith sep (x # y # ys) = x @ sep @ joinWith sep (y # ys)"

fun path_Join :: "string list \<Rightarrow> string" where
  "path_Join [] = []"
| "path_Join (e # es) = (if e \<noteq> [] then path_Clean (joinWith ''/'' (e # es)) else path_Join es)"

definition filepath_Join :: "string list \<Rightarrow> string" where
  "filepath_Join = path_Join"

subsection \<open>Constants and the service definition\<close>

definition maxFiles :: int where "maxFiles = 65000"
definition maxProcs :: int where "maxProcs = 20000"
definition replicaSetName :: string where "replicaSetName = ''juju''"
definition oldMongoServiceName :: string where "oldMongoServiceName = ''juju-db''"
definition JujuMongodPath :: string where "JujuMongodPath = ''/usr/lib/juju/bin/mongod''"
definition mongoScriptVersion :: int where "mongoScriptVersion = 2"

text \<open>
  \<^verbatim>\<open>upstart.Conf\<close>: the fields of the supervisor's service definition that this package
  sets. \<open>Name\<close> is the \<^verbatim>\<open>Service.Name\<close> of the embedded \<^verbatim>\<open>upstart.Service\<close>.
\<close>

record conf =
  Name :: string
  Desc :: string
  Limit :: "string \<rightharpoonup> string"
  Cmd :: string

datatype error =
    ErrNotFound                       \<comment> \<open>the sentinel \<^verbatim>\<open>mgo.ErrNotFound\<close>\<close>
  | External string                   \<comment> \<open>an error raised by a collaborator, with its message\<close>
  | JournalDirsError error            \<comment> \<open>\<^verbatim>\<open>Error creating journal directories: %v\<close>\<close>
  | InstallError string error         \<comment> \<open>\<^verbatim>\<open>failed to install mongo service %q: %v\<close>\<close>
  | StartError string error           \<comment> \<open>\<^verbatim>\<open>failed to start %q service: %v\<close>\<close>
  | ReplicasetError error             \<comment> \<open>\<^verbatim>\<open>failed to initiate mongo replicaset: %v\<close>\<close>
  | DialError error                   \<comment> \<open>\<^verbatim>\<open>can't dial mongo to initiate replicaset: %v\<close>\<close>
  | InitiateError error               \<comment> \<open>\<^verbatim>\<open>error from mongo initiate: %v\<close>\<close>
  | ConfigError error                 \<comment> \<open>\<^verbatim>\<open>error getting replicaset config: %v\<close>\<close>
  | OpenPreallocError string error    \<comment> \<open>\<^verbatim>\<open>failed to open mongo prealloc file %q: %v\<close>\<close>
  | WritePreallocError string error   \<comment> \<open>\<^verbatim>\<open>failed to write to mongo prealloc file %q: %v\<close>\<close>
  | NilDereference                    \<comment> \<open>the run-time panic of \<^verbatim>\<open>*info\<close> on a nil pointer\<close>

definition makeServiceName :: "int \<Rightarrow> string" where
  "makeServiceName version = ''juju-db-v'' @ showInt version"

text \<open>
  \<^verbatim>\<open>mongoUpstartService\<close>. Its body calls \<^verbatim>\<open>path.Join\<close>, \<^verbatim>\<open>fmt.Sprintf\<close>, \<^verbatim>\<open>fmt.Sprint\<close>,
  \<^verbatim>\<open>upstart.NewService\<close> and \<^verbatim>\<open>utils.ShQuote\<close> and reads its parameters and the constants
  \<^verbatim>\<open>maxFiles\<close>, \<^verbatim>\<open>maxProcs\<close> and \<^verbatim>\<open>replicaSetName\<close>; it makes no call to the supervisor, the
  filesystem or the database. It is therefore embedded as a function of its arguments
  that takes no world and returns none. \<^verbatim>\<open>utils.ShQuote\<close> lives in another package of the
  repository; the builder takes it as the parameter \<open>shQuote\<close>. \<^verbatim>\<open>upstart.NewService\<close> is
  taken to record the name it is given.
\<close>

definition mongoUpstartService ::
  "(string \<Rightarrow> string) \<Rightarrow> string \<Rightarrow> string \<Rightarrow> string \<Rightarrow> int \<Rightarrow> error + conf" where
  "mongoUpstartService shQuote name dataDir dbDir port =
     (let keyFile = path_Join [dataDir, ''server.pem''] in
      Inr \<lparr> Name = name,
            Desc = ''juju state database'',
            Limit = [''nofile'' \<mapsto> showInt maxFiles @ '' '' @ showInt maxFiles,
                     ''nproc'' \<mapsto> showInt maxProcs @ '' '' @ showInt maxProcs],
            Cmd = ''/usr/bin/mongod'' @
                  '' --auth'' @
                  '' --dbpath='' @ dbDir @
                  '' --sslOnNormalPorts'' @
                  '' --sslPEMKeyFile '' @ shQuote keyFile @
                  '' --sslPEMKeyPassword ignored'' @
                  '' --bind_ip 0.0.0.0'' @
                  '' --port '' @ showInt port @
                  '' --noprealloc'' @
                  '' --syslog'' @
                  '' --smallfiles'' @
                  '' --replSet '' @ replicaSetName \<rparr>)"

subsection \<open>The world outside the package\<close>

text \<open>
  The supervisor's installed definitions and running services, the filesystem (a map
  from the path strings that \<^verbatim>\<open>path.Join\<close> produces to nodes), the process umask, what
  \<^verbatim>\<open>exec.LookPath\<close> finds, the replica-set configuration the database holds, and the
  calls made so far with their outcomes.
\<close>

type_synonym FileMode = "32 word"

datatype node = Dir FileMode | File FileMode "8 word list"

record replicaSetConfig =
  rsName :: string
  rsMembers :: "string list"

text \<open>\<^verbatim>\<open>mgo.DialInfo\<close>: the package only passes it on; no field is read.\<close>

record dialInfo =
  Addrs :: "string list"

datatype op =
    OpStopAndRemove string
  | OpInstalled string
  | OpRunning string
  | OpInstall conf
  | OpStart string
  | OpMkdirAll string FileMode
  | OpOpenFile string FileMode
  | OpWrite string "8 word list"
  | OpClose string
  | OpDialWithInfo dialInfo
  | OpCurrentConfig
  | OpInitiate string string
  | OpSessionClose
  | OpStat string
  | OpLookPath string

datatype outcome = Done | Failed error | Answered bool

type_synonym event = "op \<times> outcome"

record world =
  services :: "string \<rightharpoonup> conf"
  running :: "string set"
  files :: "string \<rightharpoonup> node"
  umask :: FileMode
  lookPath :: "string \<rightharpoonup> string"
  replicaSet :: "replicaSetConfig option"
  trace :: "event list"

text \<open>
  What the package cannot decide: \<open>faults\<close> says, from the calls made so far and the call
  about to be made, whether that call fails for a reason of its own (and with which
  message); \<open>ShQuote\<close> is \<^verbatim>\<open>utils.ShQuote\<close>.
\<close>

record env =
  faults :: "event list \<Rightarrow> op \<Rightarrow> string option"
  ShQuote :: "string \<Rightarrow> string"

definition emit :: "op \<Rightarrow> outcome \<Rightarrow> world \<Rightarrow> world" where
  "emit a r w = w\<lparr>trace := trace w @ [(a, r)]\<rparr>"

text \<open>The events a call added: those of \<open>w'\<close> past the ones \<open>w\<close> already had.\<close>

definition new_events :: "world \<Rightarrow> world \<Rightarrow> event list" where
  "new_events w w' = drop (length (trace w)) (trace w')"

definition ops :: "event list \<Rightarrow> op list" where
  "ops t = map fst t"

subsubsection \<open>The process supervisor (package upstart)\<close>

text \<open>
  Modelled from the spec: the methods \<^verbatim>\<open>Installed\<close>, \<^verbatim>\<open>Running\<close>, \<^verbatim>\<open>Install\<close>, \<^verbatim>\<open>Start\<close> and
  \<^verbatim>\<open>StopAndRemove\<close> of \<^verbatim>\<open>upstart.Service\<close> and \<^verbatim>\<open>upstart.Conf\<close>, which are not part of the
  package. The supervisor supports check-installed, check-running, install (installing
  a definition that is already installed is an error), start and stop-and-remove;
  stop-and-remove requests both "stop if running" and "delete definition", and removing
  a definition that does not exist is a successful no-op.
\<close>

text \<open>Modelled from the spec: check-installed answers whether a definition of that name is
  installed.\<close>

definition upstart_Installed :: "string \<Rightarrow> world \<Rightarrow> bool \<times> world" where
  "upstart_Installed name w =
     (let b = (services w name \<noteq> None) in (b, emit (OpInstalled name) (Answered b) w))"

text \<open>Modelled from the spec: check-running answers whether the service of that name runs.\<close>

definition upstart_Running :: "string \<Rightarrow> world \<Rightarrow> bool \<times> world" where
  "upstart_Running name w =
     (let b = (name \<in> running w) in (b, emit (OpRunning name) (Answered b) w))"

text \<open>Modelled from the spec: install registers the definition under its name; installing a
  definition that is already installed is an error.\<close>

definition upstart_Install :: "env \<Rightarrow> conf \<Rightarrow> world \<Rightarrow> (error + unit) \<times> world" where
  "upstart_Install env c w =
     (case faults env (trace w) (OpInstall c) of
        Some m \<Rightarrow> (Inl (External m), emit (OpInstall c) (Failed (External m)) w)
      | None \<Rightarrow>
          if services w (Name c) \<noteq> None
          then (Inl (External ''already installed''),
                emit (OpInstall c) (Failed (External ''already installed'')) w)
          else (Inr (), emit (OpInstall c) Done (w\<lparr>services := (services w)(Name c \<mapsto> c)\<rparr>)))"

text \<open>Modelled from the spec: start makes the service of that name run.\<close>

definition upstart_Start :: "env \<Rightarrow> string \<Rightarrow> world \<Rightarrow> (error + unit) \<times> world" where
  "upstart_Start env name w =
     (case faults env (trace w) (OpStart name) of
        Some m \<Rightarrow> (Inl (External m), emit (OpStart name) (Failed (External m)) w)
      | None \<Rightarrow> (Inr (), emit (OpStart name) Done (w\<lparr>running := insert name (running w)\<rparr>)))"

text \<open>Modelled from the spec: stop-and-remove stops the service if it runs and deletes its
  definition; where no definition of that name exists it succeeds and changes nothing.\<close>

definition upstart_StopAndRemove :: "env \<Rightarrow> string \<Rightarrow> world \<Rightarrow> (error + unit) \<times> world" where
  "upstart_StopAndRemove env name w =
     (if services w name = None then (Inr (), emit (OpStopAndRemove name) Done w)
      else
        (case faults env (trace w) (OpStopAndRemove name) of
           Some m \<Rightarrow> (Inl (External m), emit (OpStopAndRemove name) (Failed (External m)) w)
         | None \<Rightarrow>
             (Inr (), emit (OpStopAndRemove name) Done
                        (w\<lparr>services := (services w)(name := None),
                           running := running w - {name}\<rparr>))))"

subsubsection \<open>The filesystem (package os of the Go standard library)\<close>

text \<open>
  \<^verbatim>\<open>os.MkdirAll\<close>: a path that is already a directory is left as it is (its mode too) and
  the call succeeds; a path that is a file is an error; otherwise the missing parents
  and the directory are created, each with the given mode less the umask. The parent
  of the path is \<^verbatim>\<open>path[0:j-1]\<close>, where \<^verbatim>\<open>path[0:j]\<close> is the path without its trailing
  slashes and its last element.
\<close>

definition os_Mkdir :: "string \<Rightarrow> FileMode \<Rightarrow> world \<Rightarrow> (error + unit) \<times> world" where
  "os_Mkdir path perm w =
     (if files w path \<noteq> None then (Inl (External ''file exists''), w)
      else (Inr (), w\<lparr>files := (files w)(path \<mapsto> Dir (perm AND NOT (umask w)))\<rparr>))"

function mkdirAll :: "string \<Rightarrow> FileMode \<Rightarrow> world \<Rightarrow> (error + unit) \<times> world" where
  "mkdirAll path perm w =
     (case files w path of
        Some (Dir m) \<Rightarrow> (Inr (), w)
      | Some (File m c) \<Rightarrow> (Inl (External ''not a directory''), w)
      | None \<Rightarrow>
          (let s1 = rev (dropWhile (\<lambda>c. c = CHR ''/'') (rev path));
               s2 = rev (dropWhile (\<lambda>c. c \<noteq> CHR ''/'') (rev s1))
           in case (if length s2 > 1 then mkdirAll (butlast s2) perm w else (Inr (), w)) of
                (Inl e, w1) \<Rightarrow> (Inl e, w1)
              | (Inr u, w1) \<Rightarrow>
                  (case os_Mkdir path perm w1 of
                     (Inl e, w2) \<Rightarrow>
                       (case files w2 path of
                          Some (Dir m) \<Rightarrow> (Inr (), w2)
                        | _ \<Rightarrow> (Inl e, w2))
                   | (Inr u, w2) \<Rightarrow> (Inr (), w2))))"
  by pat_completeness auto
termination
proof (relation "measure (\<lambda>(path, perm, w). length path)")
  show "wf (measure (\<lambda>(path, perm, w). length path))"
    by simp
next
  fix path :: string and perm :: FileMode and w :: world and x xa
  assume x: "x = rev (dropWhile (\<lambda>c. c = CHR ''/'') (rev path))"
    and xa: "xa = rev (dropWhile (\<lambda>c. c \<noteq> CHR ''/'') (rev x))"
    and len: "1 < length xa"
  have "length xa \<le> length x"
    unfolding xa using length_dropWhile_le [of "\<lambda>c. c \<noteq> CHR ''/''" "rev x"] by simp
  moreover have "length x \<le> length path"
    unfolding x using length_dropWhile_le [of "\<lambda>c. c = CHR ''/''" "rev path"] by simp
  ultimately have "length (butlast xa) < length path"
    using len by simp
  then show "((butlast xa, perm, w), path, perm, w) \<in> measure (\<lambda>(path, perm, w). length path)"
    by simp
qed

declare mkdirAll.simps [simp del]

definition os_MkdirAll :: "env \<Rightarrow> string \<Rightarrow> FileMode \<Rightarrow> world \<Rightarrow> (error + unit) \<times> world" where
  "os_MkdirAll env path perm w =
     (case faults env (trace w) (OpMkdirAll path perm) of
        Some m \<Rightarrow> (Inl (External m), emit (OpMkdirAll path perm) (Failed (External m)) w)
      | None \<Rightarrow>
          (case mkdirAll path perm w of
             (Inl e, w1) \<Rightarrow> (Inl e, emit (OpMkdirAll path perm) (Failed e) w1)
           | (Inr u, w1) \<Rightarrow> (Inr (), emit (OpMkdirAll path perm) Done w1)))"

text \<open>
  \<^verbatim>\<open>os.OpenFile\<close> with \<^verbatim>\<open>O_WRONLY|O_CREATE|O_TRUNC\<close>: a directory cannot be opened for
  writing; an existing file is emptied and keeps its mode; a missing file is created
  empty with the given mode less the umask. The handle returned is the file's path.
\<close>

definition os_OpenFile :: "env \<Rightarrow> string \<Rightarrow> FileMode \<Rightarrow> world \<Rightarrow> (error + string) \<times> world" where
  "os_OpenFile env name perm w =
     (case faults env (trace w) (OpOpenFile name perm) of
        Some m \<Rightarrow> (Inl (External m), emit (OpOpenFile name perm) (Failed (External m)) w)
      | None \<Rightarrow>
          (case files w name of
             Some (Dir m) \<Rightarrow>
               (Inl (External ''is a directory''),
                emit (OpOpenFile name perm) (Failed (External ''is a directory'')) w)
           | Some (File m c) \<Rightarrow>
               (Inr name, emit (OpOpenFile name perm) Done
                            (w\<lparr>files := (files w)(name \<mapsto> File m [])\<rparr>))
           | None \<Rightarrow>
               (Inr name, emit (OpOpenFile name perm) Done
                            (w\<lparr>files := (files w)(name \<mapsto> File (perm AND NOT (umask w)) [])\<rparr>))))"

text \<open>
  \<^verbatim>\<open>File.Write\<close>: the handle was opened empty and is written by this package alone, so
  the bytes go at the end of the file. A write that returns no error has written all
  of its argument and returns its length.
\<close>

definition file_Write :: "env \<Rightarrow> string \<Rightarrow> 8 word list \<Rightarrow> world \<Rightarrow> (error + nat) \<times> world" where
  "file_Write env f b w =
     (case faults env (trace w) (OpWrite f b) of
        Some m \<Rightarrow> (Inl (External m), emit (OpWrite f b) (Failed (External m)) w)
      | None \<Rightarrow>
          (case files w f of
             Some (File m c) \<Rightarrow>
               (Inr (length b), emit (OpWrite f b) Done (w\<lparr>files := (files w)(f \<mapsto> File m (c @ b))\<rparr>))
           | _ \<Rightarrow>
               (Inl (External ''bad file descriptor''),
                emit (OpWrite f b) (Failed (External ''bad file descriptor'')) w)))"

definition file_Close :: "string \<Rightarrow> world \<Rightarrow> world" where
  "file_Close f w = emit (OpClose f) Done w"

definition os_Stat :: "env \<Rightarrow> string \<Rightarrow> world \<Rightarrow> (error + node) \<times> world" where
  "os_Stat env name w =
     (case faults env (trace w) (OpStat name) of
        Some m \<Rightarrow> (Inl (External m), emit (OpStat name) (Failed (External m)) w)
      | None \<Rightarrow>
          (case files w name of
             None \<Rightarrow>
               (Inl (External ''no such file or directory''),
                emit (OpStat name) (Failed (External ''no such file or directory'')) w)
           | Some n \<Rightarrow> (Inr n, emit (OpStat name) Done w)))"

definition exec_LookPath :: "string \<Rightarrow> world \<Rightarrow> (error + string) \<times> world" where
  "exec_LookPath file w =
     (case lookPath w file of
        None \<Rightarrow>
          (Inl (External ''executable file not found in $PATH''),
           emit (OpLookPath file) (Failed (External ''executable file not found in $PATH'')) w)
      | Some p \<Rightarrow> (Inr p, emit (OpLookPath file) Done w))"

subsubsection \<open>The database (packages mgo and replicaset)\<close>

text \<open>
  Modelled from the spec: \<^verbatim>\<open>mgo.DialWithInfo\<close>, \<^verbatim>\<open>replicaset.CurrentConfig\<close> and
  \<^verbatim>\<open>replicaset.Initiate\<close>, which are not part of the package. The database opens a session
  given dial parameters; the query of the current replica-set configuration returns the
  configuration, not-found or an error; initiate takes a seed member address and a set
  name and returns success or an error, and at most one initiate establishes the set.
\<close>

text \<open>Modelled from the spec: the database opens a session given dial parameters, or fails.\<close>

definition mgo_DialWithInfo :: "env \<Rightarrow> dialInfo \<Rightarrow> world \<Rightarrow> (error + unit) \<times> world" where
  "mgo_DialWithInfo env info w =
     (case faults env (trace w) (OpDialWithInfo info) of
        Some m \<Rightarrow> (Inl (External m), emit (OpDialWithInfo info) (Failed (External m)) w)
      | None \<Rightarrow> (Inr (), emit (OpDialWithInfo info) Done w))"

text \<open>Modelled from the spec: closing the session cannot fail.\<close>

definition session_Close :: "world \<Rightarrow> world" where
  "session_Close w = emit OpSessionClose Done w"

text \<open>Modelled from the spec: the query returns the configuration the database holds,
  not-found when it holds none, or an error of its own.\<close>

definition replicaset_CurrentConfig :: "env \<Rightarrow> world \<Rightarrow> (error + replicaSetConfig) \<times> world" where
  "replicaset_CurrentConfig env w =
     (case faults env (trace w) OpCurrentConfig of
        Some m \<Rightarrow> (Inl (External m), emit OpCurrentConfig (Failed (External m)) w)
      | None \<Rightarrow>
          (case replicaSet w of
             None \<Rightarrow> (Inl ErrNotFound, emit OpCurrentConfig (Failed ErrNotFound) w)
           | Some c \<Rightarrow> (Inr c, emit OpCurrentConfig Done w)))"

text \<open>Modelled from the spec: initiate establishes the set with the seed member and the set
  name; on a database that already holds a configuration it is an error.\<close>

definition replicaset_Initiate :: "env \<Rightarrow> string \<Rightarrow> string \<Rightarrow> world \<Rightarrow> (error + unit) \<times> world" where
  "replicaset_Initiate env address name w =
     (case faults env (trace w) (OpInitiate address name) of
        Some m \<Rightarrow> (Inl (External m), emit (OpInitiate address name) (Failed (External m)) w)
      | None \<Rightarrow>
          if replicaSet w \<noteq> None
          then (Inl (External ''already initialized''),
                emit (OpInitiate address name) (Failed (External ''already initialized'')) w)
          else (Inr (), emit (OpInitiate address name) Done
                          (w\<lparr>replicaSet := Some \<lparr>rsName = name, rsMembers = [address]\<rparr>\<rparr>)))"

subsection \<open>The package's functions\<close>

definition MongodPath :: "env \<Rightarrow> world \<Rightarrow> (error + string) \<times> world" where
  "MongodPath env w =
     (case os_Stat env JujuMongodPath w of
        (Inr n, w1) \<Rightarrow> (Inr JujuMongodPath, w1)
      | (Inl e, w1) \<Rightarrow>
          (case exec_LookPath ''mongod'' w1 of
             (Inl e', w2) \<Rightarrow> (Inl e', w2)
           | (Inr path, w2) \<Rightarrow> (Inr path, w2)))"

text \<open>
  \<^verbatim>\<open>initiateReplicaSet\<close>. The deferred \<^verbatim>\<open>session.Close()\<close> runs on every return after
  the dial succeeded.
\<close>

definition initiateReplicaSet ::
  "env \<Rightarrow> string \<Rightarrow> int \<Rightarrow> dialInfo option \<Rightarrow> world \<Rightarrow> (error + unit) \<times> world" where
  "initiateReplicaSet env address port info w =
     (case info of
        None \<Rightarrow> (Inl NilDereference, w)
      | Some di \<Rightarrow>
          (case mgo_DialWithInfo env di w of
             (Inl e, w1) \<Rightarrow> (Inl (DialError e), w1)
           | (Inr session, w1) \<Rightarrow>
               (case replicaset_CurrentConfig env w1 of
                  (Inl e, w2) \<Rightarrow>
                    if e = ErrNotFound then
                      (let address' = address @ '':'' @ showInt port in
                       case replicaset_Initiate env address' replicaSetName w2 of
                         (Inl e', w3) \<Rightarrow> (Inl (InitiateError e'), session_Close w3)
                       | (Inr u, w3) \<Rightarrow> (Inr (), session_Close w3))
                    else (Inl (ConfigError e), session_Close w2)
                | (Inr c, w2) \<Rightarrow> (Inr (), session_Close w2))))"

text \<open>
  \<^verbatim>\<open>makeJournalDirs\<close>. \<open>zeroes\<close> is \<^verbatim>\<open>make([]byte, 64*1024)\<close>; \<open>writeLoop\<close> is the inner loop
  \<^verbatim>\<open>for total := 0; total < 1024*1024; { ... total += n }\<close> (with \<open>tot\<close> for \<^verbatim>\<open>total\<close>);
  \<open>preallocLoop\<close> is the loop over
  \<^verbatim>\<open>x\<close>, which also collects the files whose \<^verbatim>\<open>Close\<close> is deferred (last opened first);
  they are closed when \<^verbatim>\<open>makeJournalDirs\<close> returns, whatever it returns. The mode \<^verbatim>\<open>0700\<close>
  is 448.
\<close>

definition zeroes :: "8 word list" where
  "zeroes = replicate (64 * 1024) 0"

function writeLoop :: "env \<Rightarrow> string \<Rightarrow> string \<Rightarrow> int \<Rightarrow> world \<Rightarrow> (error + unit) \<times> world" where
  "writeLoop env f filename tot w =
     (if tot < 1024 * 1024 then
        (case file_Write env f zeroes w of
           (Inl e, w1) \<Rightarrow> (Inl (WritePreallocError filename e), w1)
         | (Inr n, w1) \<Rightarrow> writeLoop env f filename (tot + int n) w1)
      else (Inr (), w))"
  by pat_completeness auto
termination
proof (relation "measure (\<lambda>(env, f, filename, tot, w). nat (1024 * 1024 - tot))")
  show "wf (measure (\<lambda>(env, f, filename, tot, w). nat (1024 * 1024 - tot)))"
    by simp
next
  fix env :: "env" and f filename :: string and tot :: int and w :: world and x y n
  assume lt: "tot < 1024 * 1024" and p: "(x, y) = file_Write env f zeroes w" and x: "x = Inr n"
  from p x have "n = length zeroes"
    by (auto simp: file_Write_def split: option.splits node.splits)
  then have "0 < n" by (simp add: zeroes_def)
  with lt show "((env, f, filename, tot + int n, y), env, f, filename, tot, w)
    \<in> measure (\<lambda>(env, f, filename, tot, w). nat (1024 * 1024 - tot))"
    by simp
qed

declare writeLoop.simps [simp del]

function preallocLoop ::
  "env \<Rightarrow> string \<Rightarrow> int \<Rightarrow> string list \<Rightarrow> world \<Rightarrow> (error + unit) \<times> string list \<times> world" where
  "preallocLoop env journalDir x deferred w =
     (if x < 3 then
        (let name = ''prealloc.'' @ showInt x;
             filename = filepath_Join [journalDir, name]
         in case os_OpenFile env filename 448 w of
              (Inl e, w1) \<Rightarrow> (Inl (OpenPreallocError filename e), deferred, w1)
            | (Inr f, w1) \<Rightarrow>
                (case writeLoop env f filename 0 w1 of
                   (Inl e, w2) \<Rightarrow> (Inl e, f # deferred, w2)
                 | (Inr u, w2) \<Rightarrow> preallocLoop env journalDir (x + 1) (f # deferred) w2))
      else (Inr (), deferred, w))"
  by pat_completeness auto
termination
  by (relation "measure (\<lambda>(env, journalDir, x, deferred, w). nat (3 - x))") auto

declare preallocLoop.simps [simp del]

fun runDeferred :: "string list \<Rightarrow> world \<Rightarrow> world" where
  "runDeferred [] w = w"
| "runDeferred (f # fs) w = runDeferred fs (file_Close f w)"

definition makeJournalDirs :: "env \<Rightarrow> string \<Rightarrow> world \<Rightarrow> (error + unit) \<times> world" where
  "makeJournalDirs env dir w =
     (let journalDir = path_Join [dir, ''journal''] in
      case os_MkdirAll env journalDir 448 w of
        (Inl e, w1) \<Rightarrow> (Inl e, w1)
      | (Inr u, w1) \<Rightarrow>
          (case preallocLoop env journalDir 0 [] w1 of
             (r, deferred, w2) \<Rightarrow> (r, runDeferred deferred w2)))"

text \<open>
  \<^verbatim>\<open>removeOldMongoServices\<close>; \<open>removeLoop\<close> is its loop
  \<^verbatim>\<open>for x := 2; x < curVersion; x++\<close>.
\<close>

function removeLoop :: "env \<Rightarrow> int \<Rightarrow> int \<Rightarrow> world \<Rightarrow> (error + unit) \<times> world" where
  "removeLoop env x curVersion w =
     (if x < curVersion then
        (case upstart_StopAndRemove env (makeServiceName x) w of
           (Inl e, w1) \<Rightarrow> (Inl e, w1)
         | (Inr u, w1) \<Rightarrow> removeLoop env (x + 1) curVersion w1)
      else (Inr (), w))"
  by pat_completeness auto
termination
  by (relation "measure (\<lambda>(env, x, curVersion, w). nat (curVersion - x))") auto

declare removeLoop.simps [simp del]

definition removeOldMongoServices :: "env \<Rightarrow> int \<Rightarrow> world \<Rightarrow> (error + unit) \<times> world" where
  "removeOldMongoServices env curVersion w =
     (case upstart_StopAndRemove env oldMongoServiceName w of
        (Inl e, w1) \<Rightarrow> (Inl e, w1)
      | (Inr u, w1) \<Rightarrow> removeLoop env 2 curVersion w1)"

definition RemoveService :: "env \<Rightarrow> world \<Rightarrow> (error + unit) \<times> world" where
  "RemoveService env w = upstart_StopAndRemove env (makeServiceName mongoScriptVersion) w"

text \<open>
  \<^verbatim>\<open>ensureMongoServer\<close>. \<open>ensureMongoServerAt\<close> is its body with the constant
  \<^verbatim>\<open>mongoScriptVersion\<close> as the parameter \<open>version\<close>, so that properties of the script
  version can be stated for the versions to come. \<open>installIfMissing\<close> is the block
  \<^verbatim>\<open>if !service.Installed() { ... }\<close> and \<open>startIfStopped\<close> the block
  \<^verbatim>\<open>if !service.Running() { ... }\<close>. The first statement dereferences \<^verbatim>\<open>info\<close>.
\<close>

definition installIfMissing :: "env \<Rightarrow> conf \<Rightarrow> string \<Rightarrow> world \<Rightarrow> (error + unit) \<times> world" where
  "installIfMissing env service dbDir w =
     (case upstart_Installed (Name service) w of
        (True, w1) \<Rightarrow> (Inr (), w1)
      | (False, w1) \<Rightarrow>
          (case makeJournalDirs env dbDir w1 of
             (Inl e, w2) \<Rightarrow> (Inl (JournalDirsError e), w2)
           | (Inr u, w2) \<Rightarrow>
               (case upstart_Install env service w2 of
                  (Inl e, w3) \<Rightarrow> (Inl (InstallError (Name service) e), w3)
                | (Inr u, w3) \<Rightarrow> (Inr (), w3))))"

definition startIfStopped :: "env \<Rightarrow> conf \<Rightarrow> string \<Rightarrow> world \<Rightarrow> (error + unit) \<times> world" where
  "startIfStopped env service name w =
     (case upstart_Running (Name service) w of
        (True, w1) \<Rightarrow> (Inr (), w1)
      | (False, w1) \<Rightarrow>
          (case upstart_Start env (Name service) w1 of
             (Inl e, w2) \<Rightarrow> (Inl (StartError name e), w2)
           | (Inr u, w2) \<Rightarrow> (Inr (), w2)))"

definition ensureMongoServerAt ::
  "env \<Rightarrow> int \<Rightarrow> string \<Rightarrow> string \<Rightarrow> int \<Rightarrow> dialInfo option \<Rightarrow> world \<Rightarrow> (error + unit) \<times> world" where
  "ensureMongoServerAt env version address dataDir port info w =
     (case info of
        None \<Rightarrow> (Inl NilDereference, w)
      | Some di \<Rightarrow>
          (let dbDir = filepath_Join [dataDir, ''db''];
               name = makeServiceName version
           in case removeOldMongoServices env version w of
                (Inl e, w1) \<Rightarrow> (Inl e, w1)
              | (Inr u, w1) \<Rightarrow>
                  (case mongoUpstartService (ShQuote env) name dataDir dbDir port of
                     Inl e \<Rightarrow> (Inl e, w1)
                   | Inr service \<Rightarrow>
                       (case installIfMissing env service dbDir w1 of
                          (Inl e, w2) \<Rightarrow> (Inl e, w2)
                        | (Inr u, w2) \<Rightarrow>
                            (case startIfStopped env service name w2 of
                               (Inl e, w3) \<Rightarrow> (Inl e, w3)
                             | (Inr u, w3) \<Rightarrow>
                                 (case initiateReplicaSet env address port info w3 of
                                    (Inl e, w4) \<Rightarrow> (Inl (ReplicasetError e), w4)
                                  | (Inr u, w4) \<Rightarrow> (Inr (), w4)))))))"

definition ensureMongoServer ::
  "env \<Rightarrow> string \<Rightarrow> string \<Rightarrow> int \<Rightarrow> dialInfo option \<Rightarrow> world \<Rightarrow> (error + unit) \<times> world" where
  "ensureMongoServer env = ensureMongoServerAt env mongoScriptVersion"

definition EnsureMongoServer ::
  "env \<Rightarrow> string \<Rightarrow> string \<Rightarrow> int \<Rightarrow> dialInfo option \<Rightarrow> world \<Rightarrow> (error + unit) \<times> world" where
  "EnsureMongoServer = ensureMongoServer"

subsection \<open>Vocabulary of the properties\<close>

text \<open>
  A simple name is a single path element that is neither empty nor begins with a dot;
  \<open>joinPrefix d\<close> is what \<^verbatim>\<open>path.Join\<close> puts in front of a simple name joined to \<open>d\<close>.
\<close>

definition simpleName :: "string \<Rightarrow> bool" where
  "simpleName n \<longleftrightarrow> n \<noteq> [] \<and> hd n \<noteq> CHR ''/'' \<and> hd n \<noteq> CHR ''.'' \<and> CHR ''/'' \<notin> set n"

definition joinPrefix :: "string \<Rightarrow> string" where
  "joinPrefix d =
     (if d = [] then []
      else
        (let rooted = (hd d = CHR ''/'');
             out = fst (cleanLoop rooted (if rooted then tl d else d)
                          (if rooted then (''/'', 1) else ([], 0)))
         in if (rooted \<and> length out \<noteq> 1) \<or> (\<not> rooted \<and> length out \<noteq> 0)
            then out @ ''/'' else out))"

text \<open>The kinds of call the properties speak of.\<close>

fun isRemoval :: "op \<Rightarrow> bool" where
  "isRemoval (OpStopAndRemove n) = True"
| "isRemoval a = False"

fun isInstall :: "op \<Rightarrow> bool" where
  "isInstall (OpInstall c) = True"
| "isInstall a = False"

fun isStart :: "op \<Rightarrow> bool" where
  "isStart (OpStart n) = True"
| "isStart a = False"

fun isDial :: "op \<Rightarrow> bool" where
  "isDial (OpDialWithInfo i) = True"
| "isDial a = False"

fun isQuery :: "op \<Rightarrow> bool" where
  "isQuery OpCurrentConfig = True"
| "isQuery a = False"

fun isInitiate :: "op \<Rightarrow> bool" where
  "isInitiate (OpInitiate a n) = True"
| "isInitiate a = False"

fun isJournalOp :: "op \<Rightarrow> bool" where
  "isJournalOp (OpMkdirAll p m) = True"
| "isJournalOp (OpOpenFile p m) = True"
| "isJournalOp (OpWrite f b) = True"
| "isJournalOp (OpClose f) = True"
| "isJournalOp a = False"

fun isResolution :: "op \<Rightarrow> bool" where
  "isResolution (OpStat p) = True"
| "isResolution (OpLookPath f) = True"
| "isResolution a = False"

text \<open>
  Scenarios. \<open>quietEnv\<close> never fails of its own; \<open>angleQuote\<close> stands in for
  \<^verbatim>\<open>utils.ShQuote\<close>. \<open>freshWorld\<close> is a node with an empty data directory
  \<^verbatim>\<open>/var/lib/x\<close> (mode 0755 is 493, umask 022 is 18), no service and no replica set;
  \<open>settledWorld\<close> is the same node with the current service definition installed and
  running and the replica set initiated; \<open>legacyWorld\<close> has the definitions of earlier
  versions installed next to that of version 4.
\<close>

definition noFaults :: "event list \<Rightarrow> op \<Rightarrow> string option" where
  "noFaults h a = None"

definition installFails :: "event list \<Rightarrow> op \<Rightarrow> string option" where
  "installFails h a = (if isInstall a then Some ''no space left on device'' else None)"

definition dialFails :: "event list \<Rightarrow> op \<Rightarrow> string option" where
  "dialFails h a = (if isDial a then Some ''connection refused'' else None)"

definition angleQuote :: "string \<Rightarrow> string" where
  "angleQuote s = ''<'' @ s @ ''>''"

definition quietEnv :: env where
  "quietEnv = \<lparr> faults = noFaults, ShQuote = angleQuote \<rparr>"

definition freshWorld :: world where
  "freshWorld =
     \<lparr> services = Map.empty, running = {},
       files = [''/var'' \<mapsto> Dir 493, ''/var/lib'' \<mapsto> Dir 493, ''/var/lib/x'' \<mapsto> Dir 493],
       umask = 18, lookPath = Map.empty, replicaSet = None, trace = [] \<rparr>"

definition exampleService :: conf where
  "exampleService =
     \<lparr> Name = ''juju-db-v2'', Desc = ''juju state database'',
       Limit = [''nofile'' \<mapsto> ''65000 65000'', ''nproc'' \<mapsto> ''20000 20000''],
       Cmd = ''/usr/bin/mongod --auth --dbpath=/var/lib/x/db --sslOnNormalPorts --sslPEMKeyFile </var/lib/x/server.pem> --sslPEMKeyPassword ignored --bind_ip 0.0.0.0 --port 37017 --noprealloc --syslog --smallfiles --replSet juju'' \<rparr>"

definition settledWorld :: world where
  "settledWorld =
     freshWorld \<lparr> services := [''juju-db-v2'' \<mapsto> exampleService],
                  running := {''juju-db-v2''},
                  replicaSet := Some \<lparr>rsName = ''juju'', rsMembers = [''10.0.0.1:37017'']\<rparr> \<rparr>"

definition legacyWorld :: world where
  "legacyWorld =
     freshWorld \<lparr> services := [''juju-db'' \<mapsto> exampleService, ''juju-db-v2'' \<mapsto> exampleService,
                               ''juju-db-v3'' \<mapsto> exampleService, ''juju-db-v4'' \<mapsto> exampleService],
                  running := {''juju-db-v3'', ''juju-db-v4''},
                  replicaSet := Some \<lparr>rsName = ''juju'', rsMembers = [''10.0.0.1:37017'']\<rparr> \<rparr>"

text \<open>
  \<open>usedWorld\<close> is \<open>freshWorld\<close> after an earlier installation has left a database
  directory and a journal directory of mode 0755 behind.
\<close>

definition usedWorld :: world where
  "usedWorld =
     freshWorld \<lparr> files := (files freshWorld)
        (''/var/lib/x/db'' \<mapsto> Dir 493, ''/var/lib/x/db/journal'' \<mapsto> Dir 493) \<rparr>"

definition localDial :: dialInfo where
  "localDial = \<lparr> Addrs = [''127.0.0.1:37017''] \<rparr>"

text \<open>
  The world apart from its files and its trace; the name of the \<open>x\<close>-th preallocation
  file; and the calls of a preallocation that meets no failure, in their order: the three
  files are closed at the return of \<^verbatim>\<open>makeJournalDirs\<close>, the last opened first.
\<close>

definition same_outside_files :: "world \<Rightarrow> world \<Rightarrow> bool" where
  "same_outside_files w w' \<longleftrightarrow>
     services w' = services w \<and> running w' = running w \<and> umask w' = umask w
     \<and> lookPath w' = lookPath w \<and> replicaSet w' = replicaSet w"

definition preallocFile :: "string \<Rightarrow> int \<Rightarrow> string" where
  "preallocFile journalDir x = filepath_Join [journalDir, ''prealloc.'' @ showInt x]"

definition journalTrace :: "string \<Rightarrow> event list" where
  "journalTrace j =
     (OpMkdirAll j 448, Done)
     # concat (map (\<lambda>k. (OpOpenFile (preallocFile j k) 448, Done)
                         # replicate 16 (OpWrite (preallocFile j k) zeroes, Done))
                [0, 1, 2])
     @ [(OpClose (preallocFile j 2), Done), (OpClose (preallocFile j 1), Done),
        (OpClose (preallocFile j 0), Done)]"

text \<open>
  The names \<^verbatim>\<open>removeOldMongoServices\<close> visits at version \<open>N\<close>: the one of the first
  script and the versioned ones, which begin at version 2.
\<close>

definition legacyNames :: "int \<Rightarrow> string list" where
  "legacyNames N = oldMongoServiceName # map makeServiceName [2..N - 1]"

text \<open>
  Each call has one kind, so two of the predicates above never hold of the same call.
\<close>

datatype opKind =
    KRemoval | KInstalled | KRunning | KInstall | KStart | KJournal
  | KDial | KQuery | KInitiate | KSessionClose | KResolution

fun kindOf :: "op \<Rightarrow> opKind" where
  "kindOf (OpStopAndRemove n) = KRemoval"
| "kindOf (OpInstalled n) = KInstalled"
| "kindOf (OpRunning n) = KRunning"
| "kindOf (OpInstall c) = KInstall"
| "kindOf (OpStart n) = KStart"
| "kindOf (OpMkdirAll p m) = KJournal"
| "kindOf (OpOpenFile p m) = KJournal"
| "kindOf (OpWrite f b) = KJournal"
| "kindOf (OpClose f) = KJournal"
| "kindOf (OpDialWithInfo i) = KDial"
| "kindOf OpCurrentConfig = KQuery"
| "kindOf (OpInitiate a n) = KInitiate"
| "kindOf OpSessionClose = KSessionClose"
| "kindOf (OpStat p) = KResolution"
| "kindOf (OpLookPath f) = KResolution"

text \<open>
  What holds of every pass of \<^verbatim>\<open>ensureMongoServer\<close> at version \<open>N\<close> from \<open>w\<close> to \<open>w'\<close> with
  result \<open>r\<close> and calls \<open>t\<close>.
\<close>

definition passFacts :: "int \<Rightarrow> conf \<Rightarrow> world \<Rightarrow> (error + unit) \<Rightarrow> world \<Rightarrow> event list \<Rightarrow> bool" where
  "passFacts N service w r w' t \<longleftrightarrow>
      (\<forall>ev\<in>set t. isRemoval (fst ev) \<or> fst ev = OpInstalled (makeServiceName N)
           \<or> isJournalOp (fst ev) \<or> fst ev = OpInstall service
           \<or> fst ev = OpRunning (makeServiceName N) \<or> fst ev = OpStart (makeServiceName N)
           \<or> isDial (fst ev) \<or> isQuery (fst ev) \<or> isInitiate (fst ev)
           \<or> fst ev = OpSessionClose)
    \<and> (\<forall>c e. (OpInstall c, Failed e) \<in> set t
          \<longrightarrow> r = Inl (InstallError (makeServiceName N) e)
              \<and> (\<forall>ev\<in>set t. \<not> isStart (fst ev) \<and> \<not> isInitiate (fst ev)))
    \<and> (\<forall>d e. (OpDialWithInfo d, Failed e) \<in> set t
          \<longrightarrow> r = Inl (ReplicasetError (DialError e))
              \<and> (\<forall>ev\<in>set t. \<not> isQuery (fst ev) \<and> \<not> isInitiate (fst ev)))
    \<and> (\<forall>b. (OpInstalled (makeServiceName N), Answered b) \<in> set t
          \<longrightarrow> b = (services w (makeServiceName N) \<noteq> None))
    \<and> (services w (makeServiceName N) \<noteq> None
          \<longrightarrow> (\<forall>ev\<in>set t. \<not> isJournalOp (fst ev) \<and> \<not> isInstall (fst ev)) \<and> files w' = files w)
    \<and> (makeServiceName N \<in> running w \<longrightarrow> (\<forall>ev\<in>set t. \<not> isStart (fst ev)))
    \<and> (replicaSet w \<noteq> None \<longrightarrow> (\<forall>ev\<in>set t. \<not> isInitiate (fst ev)))
    \<and> (r = Inr () \<longrightarrow>
          services w' (makeServiceName N) \<noteq> None \<and> makeServiceName N \<in> running w'
          \<and> replicaSet w' \<noteq> None
          \<and> services w' oldMongoServiceName = None
          \<and> (\<forall>v. 2 \<le> v \<and> v < N \<longrightarrow> services w' (makeServiceName v) = None)
          \<and> (\<forall>n. services w n = None \<and> n \<noteq> makeServiceName N \<longrightarrow> services w' n = None))"

section \<open>Properties\<close>

subsection \<open>Formatting\<close>

lemma showNat_lt10: "n < 10 \<Longrightarrow> showNat n = [digit n]"
  by (simp add: showNat.simps)

lemma showNat_ge10: "10 \<le> n \<Longrightarrow> showNat n = showNat (n div 10) @ [digit (n mod 10)]"
  by (subst showNat.simps) simp

lemma digit_inj: "d < 10 \<Longrightarrow> e < 10 \<Longrightarrow> digit d = digit e \<Longrightarrow> d = e"
proof -
  assume d: "d < 10" and e: "e < 10" and eq: "digit d = digit e"
  have dist: "distinct ''0123456789''" by simp
  have len: "length ''0123456789'' = 10" by simp
  from eq have "''0123456789'' ! d = ''0123456789'' ! e" by (simp only: digit_def)
  with dist d e len show "d = e"
    by (simp only: nth_eq_iff_index_eq)
qed

lemma digit_in_digits: "d < 10 \<Longrightarrow> digit d \<in> set ''0123456789''"
  unfolding digit_def by (rule nth_mem) simp

lemma showNat_nonempty: "showNat n \<noteq> []"
  by (subst showNat.simps) simp

lemma showNat_digits: "set (showNat n) \<subseteq> set ''0123456789''"
proof (induction n rule: showNat.induct)
  case (1 n)
  show ?case
  proof (cases "n < 10")
    case True
    then show ?thesis using digit_in_digits [of n] by (simp only: showNat_lt10) simp
  next
    case False
    then have ge: "10 \<le> n" by simp
    have "n mod 10 < 10" by simp
    then have "digit (n mod 10) \<in> set ''0123456789''" by (rule digit_in_digits)
    with 1 [OF False] show ?thesis by (simp only: showNat_ge10 [OF ge]) simp
  qed
qed

lemma showNat_inj: "showNat n = showNat m \<Longrightarrow> n = m"
proof (induction n arbitrary: m rule: showNat.induct)
  case (1 n)
  show ?case
  proof (cases "n < 10")
    case n: True
    show ?thesis
    proof (cases "m < 10")
      case True
      with n "1.prems" show ?thesis by (simp add: showNat_lt10 digit_inj)
    next
      case False
      then have "10 \<le> m" by simp
      with n "1.prems" showNat_nonempty [of "m div 10"] show ?thesis
        by (auto simp add: showNat_lt10 showNat_ge10)
    qed
  next
    case n: False
    then have nge: "10 \<le> n" by simp
    show ?thesis
    proof (cases "m < 10")
      case True
      with nge "1.prems" showNat_nonempty [of "n div 10"] show ?thesis
        by (auto simp add: showNat_lt10 showNat_ge10)
    next
      case False
      then have mge: "10 \<le> m" by simp
      from "1.prems" nge mge
      have eq: "showNat (n div 10) = showNat (m div 10)" and d: "digit (n mod 10) = digit (m mod 10)"
        by (simp_all add: showNat_ge10)
      from "1.IH" [OF n eq] have "n div 10 = m div 10" .
      moreover from d have "n mod 10 = m mod 10" by (intro digit_inj) simp_all
      ultimately show ?thesis by (metis div_mult_mod_eq)
    qed
  qed
qed

lemma showInt_inj: "showInt i = showInt j \<Longrightarrow> i = j"
proof -
  assume eq: "showInt i = showInt j"
  have nd: "\<And>n. hd (showNat n) \<noteq> CHR ''-''"
  proof -
    fix n
    have "hd (showNat n) \<in> set (showNat n)" by (simp add: showNat_nonempty)
    with showNat_digits [of n] have "hd (showNat n) \<in> set ''0123456789''" by blast
    then show "hd (showNat n) \<noteq> CHR ''-''" by auto
  qed
  have ne: "\<And>n k. CHR ''-'' # showNat k \<noteq> showNat n"
    using nd by (metis list.sel(1))
  show "i = j"
  proof (cases "i < 0")
    case i: True
    show ?thesis
    proof (cases "j < 0")
      case True
      with i eq have "showNat (nat (- i)) = showNat (nat (- j))" by (simp add: showInt_def)
      then have "nat (- i) = nat (- j)" by (rule showNat_inj)
      with i True show ?thesis by simp
    next
      case False
      with i eq ne show ?thesis by (simp add: showInt_def)
    qed
  next
    case i: False
    show ?thesis
    proof (cases "j < 0")
      case True
      with i eq ne [of "nat (- j)" "nat i"] show ?thesis by (simp add: showInt_def)
    next
      case False
      with i eq have "showNat (nat i) = showNat (nat j)" by (simp add: showInt_def)
      then have "nat i = nat j" by (rule showNat_inj)
      with i False show ?thesis by simp
    qed
  qed
qed

lemma makeServiceName_inj: "makeServiceName v = makeServiceName v' \<Longrightarrow> v = v'"
  by (simp add: makeServiceName_def showInt_inj)

lemma makeServiceName_not_old: "makeServiceName v \<noteq> oldMongoServiceName"
proof
  assume "makeServiceName v = oldMongoServiceName"
  then have "length (makeServiceName v) = length oldMongoServiceName" by simp
  then show False by (simp add: makeServiceName_def oldMongoServiceName_def)
qed

lemma showNat_numeral_digit: "showNat 0 = ''0''" "showNat 1 = ''1''" "showNat 2 = ''2''"
  by (simp_all add: showNat_lt10 digit_def)

subsection \<open>Paths\<close>

lemma cleanLoop_Nil: "cleanLoop rooted [] st = st"
  by (simp add: cleanLoop.simps)

lemma cleanLoop_slash: "cleanLoop rooted (CHR ''/'' # r1) st = cleanLoop rooted r1 st"
  by (subst cleanLoop.simps) simp

lemma cleanLoop_dot:
  "r1 = [] \<or> hd r1 = CHR ''/'' \<Longrightarrow> cleanLoop rooted (CHR ''.'' # r1) st = cleanLoop rooted r1 st"
  by (subst cleanLoop.simps) (simp add: Let_def)

lemma cleanLoop_dotdot:
  "tl r1 = [] \<or> hd (tl r1) = CHR ''/'' \<Longrightarrow> r1 \<noteq> [] \<Longrightarrow> hd r1 = CHR ''.'' \<Longrightarrow>
   cleanLoop rooted (CHR ''.'' # r1) (out, dotdot) =
     cleanLoop rooted (tl r1)
       (if length out > dotdot then (take (backtrackTo out dotdot (length out - 1)) out, dotdot)
        else if \<not> rooted then
          ((if length out > 0 then out @ ''/'' else out) @ ''..'',
           length ((if length out > 0 then out @ ''/'' else out) @ ''..''))
        else (out, dotdot))"
  by (subst cleanLoop.simps) (auto simp add: Let_def)

lemma cleanLoop_elem:
  "c \<noteq> CHR ''/'' \<Longrightarrow>
   \<not> (c = CHR ''.'' \<and> (r1 = [] \<or> hd r1 = CHR ''/'')) \<Longrightarrow>
   \<not> (c = CHR ''.'' \<and> hd r1 = CHR ''.'' \<and> (tl r1 = [] \<or> hd (tl r1) = CHR ''/'')) \<Longrightarrow>
   cleanLoop rooted (c # r1) (out, dotdot) =
     cleanLoop rooted (dropWhile (\<lambda>x. x \<noteq> CHR ''/'') r1)
       ((if (rooted \<and> length out \<noteq> 1) \<or> (\<not> rooted \<and> length out \<noteq> 0) then out @ ''/'' else out)
          @ c # takeWhile (\<lambda>x. x \<noteq> CHR ''/'') r1, dotdot)"
  by (subst cleanLoop.simps) (auto simp add: Let_def)

lemma dropWhile_append_slash:
  "dropWhile (\<lambda>x. x \<noteq> CHR ''/'') (xs @ CHR ''/'' # ys) = dropWhile (\<lambda>x. x \<noteq> CHR ''/'') xs @ CHR ''/'' # ys"
  by (induction xs) auto

lemma takeWhile_append_slash:
  "takeWhile (\<lambda>x. x \<noteq> CHR ''/'') (xs @ CHR ''/'' # ys) = takeWhile (\<lambda>x. x \<noteq> CHR ''/'') xs"
  by (induction xs) auto

lemma cleanLoop_append_slash:
  "cleanLoop rooted (xs @ CHR ''/'' # ys) st = cleanLoop rooted (CHR ''/'' # ys) (cleanLoop rooted xs st)"
proof (induction xs arbitrary: st rule: length_induct)
  case (1 rest)
  then have IH: "\<And>zs st. length zs < length rest \<Longrightarrow>
      cleanLoop rooted (zs @ CHR ''/'' # ys) st = cleanLoop rooted (CHR ''/'' # ys) (cleanLoop rooted zs st)"
    by blast
  obtain out dotdot where st: "st = (out, dotdot)" by (cases st)
  show ?case
  proof (cases rest)
    case Nil
    then show ?thesis by (simp add: cleanLoop_Nil)
  next
    case (Cons c r1)
    have hd_eq: "(r1 @ CHR ''/'' # ys = [] \<or> hd (r1 @ CHR ''/'' # ys) = CHR ''/'')
                 = (r1 = [] \<or> hd r1 = CHR ''/'')"
      by (cases r1) auto
    have hd2: "r1 \<noteq> [] \<Longrightarrow> hd (r1 @ CHR ''/'' # ys) = hd r1" 
      by (cases r1) auto
    have tl2: "r1 \<noteq> [] \<Longrightarrow> tl (r1 @ CHR ''/'' # ys) = tl r1 @ CHR ''/'' # ys"
      by (cases r1) auto
    have tl_eq: "(tl r1 @ CHR ''/'' # ys = [] \<or> hd (tl r1 @ CHR ''/'' # ys) = CHR ''/'')
                 = (tl r1 = [] \<or> hd (tl r1) = CHR ''/'')"
      by (cases "tl r1") auto
    consider (slash) "c = CHR ''/''"
      | (dot) "c = CHR ''.''" "r1 = [] \<or> hd r1 = CHR ''/''"
      | (dotdot) "c = CHR ''.''" "r1 \<noteq> []" "hd r1 \<noteq> CHR ''/''" "hd r1 = CHR ''.''"
                 "tl r1 = [] \<or> hd (tl r1) = CHR ''/''"
      | (elem) "c \<noteq> CHR ''/''"
               "\<not> (c = CHR ''.'' \<and> (r1 = [] \<or> hd r1 = CHR ''/''))"
               "\<not> (c = CHR ''.'' \<and> hd r1 = CHR ''.'' \<and> (tl r1 = [] \<or> hd (tl r1) = CHR ''/''))"
      by (cases "c = CHR ''.''") auto
    then show ?thesis
    proof cases
      case slash
      from slash IH [of r1] Cons show ?thesis
        by (simp add: cleanLoop_slash)

    next
      case dot
      have l: "cleanLoop rooted (rest @ CHR ''/'' # ys) st = cleanLoop rooted (r1 @ CHR ''/'' # ys) st"
        using dot Cons hd_eq by (simp add: cleanLoop_dot)
      have r: "cleanLoop rooted rest st = cleanLoop rooted r1 st"
        using dot Cons by (simp add: cleanLoop_dot)
      have "length r1 < length rest" using Cons by simp
      then show ?thesis
        unfolding l r by (rule IH)
    next
      case dotdot
      have len: "length (tl r1) < length rest"
        using Cons dotdot(2) by (cases r1) auto
      have c2: "tl (r1 @ CHR ''/'' # ys) = [] \<or> hd (tl (r1 @ CHR ''/'' # ys)) = CHR ''/''"
        using dotdot tl_eq by (simp add: tl2)
      have l: "cleanLoop rooted (rest @ CHR ''/'' # ys) st = 
         cleanLoop rooted (tl r1 @ CHR ''/'' # ys)
       (if length out > dotdot then (take (backtrackTo out dotdot (length out - 1)) out, dotdot)
        else if \<not> rooted then
          ((if length out > 0 then out @ ''/'' else out) @ ''..'',
           length ((if length out > 0 then out @ ''/'' else out) @ ''..''))
        else (out, dotdot))"
        using cleanLoop_dotdot [OF c2, of rooted out dotdot] dotdot Cons st
        by (simp add: hd2 tl2)
      have r: "cleanLoop rooted rest st = 
         cleanLoop rooted (tl r1)
       (if length out > dotdot then (take (backtrackTo out dotdot (length out - 1)) out, dotdot)
        else if \<not> rooted then
          ((if length out > 0 then out @ ''/'' else out) @ ''..'',
           length ((if length out > 0 then out @ ''/'' else out) @ ''..''))
        else (out, dotdot))"
        using cleanLoop_dotdot [OF dotdot(5) dotdot(2) dotdot(4), of rooted out dotdot] dotdot Cons st
        by simp
      show ?thesis
        unfolding l r by (rule IH [OF len])
    next
      case elem
      have len: "length (dropWhile (\<lambda>x. x \<noteq> CHR ''/'') r1) < length rest"
        using Cons length_dropWhile_le [of "\<lambda>x. x \<noteq> CHR ''/''" r1] by simp
      have c2: "\<not> (c = CHR ''.'' \<and> (r1 @ CHR ''/'' # ys = [] \<or> hd (r1 @ CHR ''/'' # ys) = CHR ''/''))"
        using elem(2) hd_eq by simp
      have r1ne: "c = CHR ''.'' \<Longrightarrow> r1 \<noteq> []"
        using elem(2) by auto
      have c3: "\<not> (c = CHR ''.'' \<and> hd (r1 @ CHR ''/'' # ys) = CHR ''.'' \<and>
                  (tl (r1 @ CHR ''/'' # ys) = [] \<or> hd (tl (r1 @ CHR ''/'' # ys)) = CHR ''/''))"
        using elem(3) r1ne tl_eq by (auto simp add: hd2 tl2)
      show ?thesis
        using IH [OF len] Cons st
        by (simp add: cleanLoop_elem [OF elem] cleanLoop_elem [OF elem(1) c2 c3]
              dropWhile_append_slash takeWhile_append_slash)
    qed
  qed
qed

lemma takeWhile_no_slash: "CHR ''/'' \<notin> set n \<Longrightarrow> takeWhile (\<lambda>x. x \<noteq> CHR ''/'') n = n"
  by (induction n) auto

lemma dropWhile_no_slash: "CHR ''/'' \<notin> set n \<Longrightarrow> dropWhile (\<lambda>x. x \<noteq> CHR ''/'') n = []"
  by (induction n) auto

lemma cleanLoop_simpleName:
  assumes "simpleName n"
  shows "cleanLoop rooted (CHR ''/'' # n) (out, dd) =
     ((if (rooted \<and> length out \<noteq> 1) \<or> (\<not> rooted \<and> length out \<noteq> 0) then out @ ''/'' else out) @ n, dd)"
proof -
  from assms obtain c r1 where n: "n = c # r1" and c: "c \<noteq> CHR ''/''" "c \<noteq> CHR ''.''"
    and r1: "CHR ''/'' \<notin> set r1"
    by (cases n) (auto simp: simpleName_def)
  show ?thesis
    unfolding n cleanLoop_slash
    using c r1
    by (simp add: cleanLoop_elem takeWhile_no_slash dropWhile_no_slash cleanLoop_Nil)
qed

lemma path_Clean_simpleName: "simpleName n \<Longrightarrow> path_Clean n = n"
proof -
  assume a: "simpleName n"
  then obtain c r1 where n: "n = c # r1" and c: "c \<noteq> CHR ''/''" "c \<noteq> CHR ''.''"
    and r1: "CHR ''/'' \<notin> set r1"
    by (cases n) (auto simp: simpleName_def)
  show ?thesis
    unfolding n using c r1
    by (simp add: path_Clean_def cleanLoop_elem takeWhile_no_slash dropWhile_no_slash cleanLoop_Nil)
qed

lemma path_Join_simpleName:
  assumes "simpleName n"
  shows "path_Join [d, n] = joinPrefix d @ n"
proof (cases "d = []")
  case True
  from assms have "n \<noteq> []" by (simp add: simpleName_def)
  with True assms show ?thesis
    by (simp add: joinPrefix_def path_Clean_simpleName)
next
  case False
  then obtain c r where d: "d = c # r" by (cases d) auto
  obtain out dd where st: "cleanLoop (c = CHR ''/'') (if c = CHR ''/'' then r else d)
                          (if c = CHR ''/'' then (''/'', 1) else ([], 0)) = (out, dd)"
    by (cases "cleanLoop (c = CHR ''/'') (if c = CHR ''/'' then r else d)
                          (if c = CHR ''/'' then (''/'', 1) else ([], 0))")
  have ne: "n \<noteq> []" using assms by (simp add: simpleName_def)
  have "cleanLoop (c = CHR ''/'') ((if c = CHR ''/'' then r else d) @ CHR ''/'' # n)
          (if c = CHR ''/'' then (''/'', 1) else ([], 0))
        = ((if (c = CHR ''/'' \<and> length out \<noteq> 1) \<or> (c \<noteq> CHR ''/'' \<and> length out \<noteq> 0)
            then out @ ''/'' else out) @ n, dd)"
    by (simp only: cleanLoop_append_slash st cleanLoop_simpleName [OF assms])
  then show ?thesis
    using ne st d by (auto simp add: joinPrefix_def path_Clean_def Let_def)
qed

lemma path_Join_simpleName_inj:
  "simpleName n \<Longrightarrow> simpleName m \<Longrightarrow> path_Join [d, n] = path_Join [d, m] \<Longrightarrow> n = m"
  using path_Join_simpleName [of n d] path_Join_simpleName [of m d]
  by (simp del: path_Join.simps)

subsection \<open>The service-definition builder\<close>

lemma Cmd_mongoUpstartService:
  "mongoUpstartService shQuote name dataDir dbDir port = Inr c \<Longrightarrow>
   Cmd c = ''/usr/bin/mongod --auth --dbpath='' @ dbDir @ '' --sslOnNormalPorts --sslPEMKeyFile '' @
           shQuote (path_Join [dataDir, ''server.pem'']) @
           '' --sslPEMKeyPassword ignored --bind_ip 0.0.0.0 --port '' @ showInt port @
           '' --noprealloc --syslog --smallfiles --replSet juju''"
  by (auto simp add: mongoUpstartService_def replicaSetName_def Let_def simp del: path_Join.simps)

lemma mongoUpstartService_total:
  "\<exists>c. mongoUpstartService shQuote name dataDir dbDir port = Inr c"
  by (simp add: mongoUpstartService_def Let_def del: path_Join.simps)

lemma sublist_mid: "ys = ps @ xs @ ss \<Longrightarrow> sublist xs ys"
  by (auto simp: sublist_def)

text \<open>
  Claim C6. For every service name, data directory and port, the command line of the
  definition that \<^verbatim>\<open>mongoUpstartService\<close> builds contains each fixed invocation
  parameter: \<^verbatim>\<open>--auth\<close>, \<^verbatim>\<open>--sslOnNormalPorts\<close>, \<^verbatim>\<open>--sslPEMKeyFile\<close> followed by the quoted
  path of \<^verbatim>\<open>server.pem\<close> in the data directory, \<^verbatim>\<open>--bind_ip 0.0.0.0\<close>, \<^verbatim>\<open>--port\<close>
  followed by the given port in decimal, \<^verbatim>\<open>--noprealloc\<close>, \<^verbatim>\<open>--syslog\<close>, \<^verbatim>\<open>--smallfiles\<close> and
  \<^verbatim>\<open>--replSet juju\<close>.
\<close>

theorem mongoUpstartService_fixed_parameters:
  "\<exists>c. mongoUpstartService shQuote name dataDir dbDir port = Inr c
     \<and> sublist '' --auth'' (Cmd c)
     \<and> sublist '' --sslOnNormalPorts'' (Cmd c)
     \<and> sublist ('' --sslPEMKeyFile '' @ shQuote (path_Join [dataDir, ''server.pem''])) (Cmd c)
     \<and> path_Join [dataDir, ''server.pem''] = joinPrefix dataDir @ ''server.pem''
     \<and> sublist '' --bind_ip 0.0.0.0'' (Cmd c)
     \<and> sublist ('' --port '' @ showInt port) (Cmd c)
     \<and> sublist '' --noprealloc'' (Cmd c)
     \<and> sublist '' --syslog'' (Cmd c)
     \<and> sublist '' --smallfiles'' (Cmd c)
     \<and> sublist ('' --replSet '' @ replicaSetName) (Cmd c)"
proof -
  obtain c where c: "mongoUpstartService shQuote name dataDir dbDir port = Inr c"
    using mongoUpstartService_total by blast
  note cmd = Cmd_mongoUpstartService [OF c]
  let ?key = "shQuote (path_Join [dataDir, ''server.pem''])"
  have 1: "sublist '' --auth'' (Cmd c)"
    by (rule sublist_mid [where ps = "''/usr/bin/mongod''"]) (simp add: cmd del: path_Join.simps)
  have 2: "sublist '' --sslOnNormalPorts'' (Cmd c)"
    by (rule sublist_mid [where ps = "''/usr/bin/mongod --auth --dbpath='' @ dbDir"])
       (simp add: cmd del: path_Join.simps)
  have 3: "sublist ('' --sslPEMKeyFile '' @ ?key) (Cmd c)"
    by (rule sublist_mid [where ps = "''/usr/bin/mongod --auth --dbpath='' @ dbDir @ '' --sslOnNormalPorts''"])
       (simp add: cmd del: path_Join.simps)
  have 4: "path_Join [dataDir, ''server.pem''] = joinPrefix dataDir @ ''server.pem''"
    by (rule path_Join_simpleName) (simp add: simpleName_def)
  have 5: "sublist '' --bind_ip 0.0.0.0'' (Cmd c)"
    by (rule sublist_mid [where ps = "''/usr/bin/mongod --auth --dbpath='' @ dbDir @
          '' --sslOnNormalPorts --sslPEMKeyFile '' @ ?key @ '' --sslPEMKeyPassword ignored''"])
       (simp add: cmd del: path_Join.simps)
  have 6: "sublist ('' --port '' @ showInt port) (Cmd c)"
    by (rule sublist_mid [where ps = "''/usr/bin/mongod --auth --dbpath='' @ dbDir @
          '' --sslOnNormalPorts --sslPEMKeyFile '' @ ?key @
          '' --sslPEMKeyPassword ignored --bind_ip 0.0.0.0''"])
       (simp add: cmd del: path_Join.simps)
  have 7: "sublist '' --noprealloc'' (Cmd c)"
    by (rule sublist_mid [where ps = "''/usr/bin/mongod --auth --dbpath='' @ dbDir @
          '' --sslOnNormalPorts --sslPEMKeyFile '' @ ?key @
          '' --sslPEMKeyPassword ignored --bind_ip 0.0.0.0 --port '' @ showInt port"])
       (simp add: cmd del: path_Join.simps)
  have 8: "sublist '' --syslog'' (Cmd c)"
    by (rule sublist_mid [where ps = "''/usr/bin/mongod --auth --dbpath='' @ dbDir @
          '' --sslOnNormalPorts --sslPEMKeyFile '' @ ?key @
          '' --sslPEMKeyPassword ignored --bind_ip 0.0.0.0 --port '' @ showInt port @ '' --noprealloc''"])
       (simp add: cmd del: path_Join.simps)
  have 9: "sublist '' --smallfiles'' (Cmd c)"
    by (rule sublist_mid [where ps = "''/usr/bin/mongod --auth --dbpath='' @ dbDir @
          '' --sslOnNormalPorts --sslPEMKeyFile '' @ ?key @
          '' --sslPEMKeyPassword ignored --bind_ip 0.0.0.0 --port '' @ showInt port @
          '' --noprealloc --syslog''"])
       (simp add: cmd del: path_Join.simps)
  have 10: "sublist ('' --replSet '' @ replicaSetName) (Cmd c)"
    by (rule sublist_mid [where ss = "[]" and ps = "''/usr/bin/mongod --auth --dbpath='' @ dbDir @
          '' --sslOnNormalPorts --sslPEMKeyFile '' @ ?key @
          '' --sslPEMKeyPassword ignored --bind_ip 0.0.0.0 --port '' @ showInt port @
          '' --noprealloc --syslog --smallfiles''"])
       (simp add: cmd replicaSetName_def del: path_Join.simps)
  from c 1 2 3 4 5 6 7 8 9 10 show ?thesis by blast
qed

lemma showInt_37017: "showInt 37017 = ''37017''"
  by (simp add: showInt_def showNat_lt10 showNat_ge10 digit_def)

lemma path_Join_eval:
  "path_Join [''/var/lib/juju'', ''server.pem''] = ''/var/lib/juju/server.pem''"
  "path_Join [''/var/lib/juju'', ''db''] = ''/var/lib/juju/db''"
  by (simp_all add: path_Clean_def cleanLoop_Nil cleanLoop_slash cleanLoop_elem)

theorem mongoUpstartService_fixed_parameters_witness:
  "sublist '' --auth''
     (Cmd (projr (mongoUpstartService (\<lambda>s. ''<'' @ s @ ''>'') ''juju-db-v2'' ''/var/lib/juju'' ''/var/lib/juju/db'' 37017)))
   \<and> sublist '' --sslOnNormalPorts''
     (Cmd (projr (mongoUpstartService (\<lambda>s. ''<'' @ s @ ''>'') ''juju-db-v2'' ''/var/lib/juju'' ''/var/lib/juju/db'' 37017)))
   \<and> sublist '' --sslPEMKeyFile </var/lib/juju/server.pem>''
     (Cmd (projr (mongoUpstartService (\<lambda>s. ''<'' @ s @ ''>'') ''juju-db-v2'' ''/var/lib/juju'' ''/var/lib/juju/db'' 37017)))
   \<and> sublist '' --bind_ip 0.0.0.0''
     (Cmd (projr (mongoUpstartService (\<lambda>s. ''<'' @ s @ ''>'') ''juju-db-v2'' ''/var/lib/juju'' ''/var/lib/juju/db'' 37017)))
   \<and> sublist '' --port 37017''
     (Cmd (projr (mongoUpstartService (\<lambda>s. ''<'' @ s @ ''>'') ''juju-db-v2'' ''/var/lib/juju'' ''/var/lib/juju/db'' 37017)))
   \<and> sublist '' --noprealloc''
     (Cmd (projr (mongoUpstartService (\<lambda>s. ''<'' @ s @ ''>'') ''juju-db-v2'' ''/var/lib/juju'' ''/var/lib/juju/db'' 37017)))
   \<and> sublist '' --syslog''
     (Cmd (projr (mongoUpstartService (\<lambda>s. ''<'' @ s @ ''>'') ''juju-db-v2'' ''/var/lib/juju'' ''/var/lib/juju/db'' 37017)))
   \<and> sublist '' --smallfiles''
     (Cmd (projr (mongoUpstartService (\<lambda>s. ''<'' @ s @ ''>'') ''juju-db-v2'' ''/var/lib/juju'' ''/var/lib/juju/db'' 37017)))
   \<and> sublist '' --replSet juju''
     (Cmd (projr (mongoUpstartService (\<lambda>s. ''<'' @ s @ ''>'') ''juju-db-v2'' ''/var/lib/juju'' ''/var/lib/juju/db'' 37017)))"
  using mongoUpstartService_fixed_parameters
          [of "\<lambda>s. ''<'' @ s @ ''>''" "''juju-db-v2''" "''/var/lib/juju''" "''/var/lib/juju/db''" 37017]
  by (auto simp add: showInt_37017 path_Join_eval replicaSetName_def simp del: path_Join.simps)

subsection \<open>The replica-set bootstrapper\<close>

lemma new_events_append: "trace w' = trace w @ t \<Longrightarrow> new_events w w' = t"
  by (simp add: new_events_def)

lemma new_events_same [simp]: "new_events w w = []"
  by (simp add: new_events_def)

lemma initiateReplicaSet_cases:
  assumes "initiateReplicaSet env address port info w = (r, w')"
  shows "(info = None \<and> r = Inl NilDereference \<and> w' = w)
    \<or> (\<exists>di e. info = Some di \<and> r = Inl (DialError e) \<and> w' = emit (OpDialWithInfo di) (Failed e) w)
    \<or> (\<exists>di c. info = Some di \<and> r = Inr () \<and> replicaSet w = Some c
          \<and> w' = emit OpSessionClose Done (emit OpCurrentConfig Done (emit (OpDialWithInfo di) Done w)))
    \<or> (\<exists>di e. info = Some di \<and> r = Inl (ConfigError e) \<and> e \<noteq> ErrNotFound
          \<and> w' = emit OpSessionClose Done (emit OpCurrentConfig (Failed e) (emit (OpDialWithInfo di) Done w)))
    \<or> (\<exists>di e. info = Some di \<and> r = Inl (InitiateError e) \<and> replicaSet w = None
          \<and> w' = emit OpSessionClose Done
                   (emit (OpInitiate (address @ '':'' @ showInt port) replicaSetName) (Failed e)
                     (emit OpCurrentConfig (Failed ErrNotFound) (emit (OpDialWithInfo di) Done w))))
    \<or> (\<exists>di. info = Some di \<and> r = Inr () \<and> replicaSet w = None
          \<and> w' = emit OpSessionClose Done
                   (emit (OpInitiate (address @ '':'' @ showInt port) replicaSetName) Done
                     ((emit OpCurrentConfig (Failed ErrNotFound) (emit (OpDialWithInfo di) Done w))
                        \<lparr>replicaSet := Some \<lparr>rsName = replicaSetName,
                                               rsMembers = [address @ '':'' @ showInt port]\<rparr>\<rparr>)))"
  using assms
  by (auto simp add: initiateReplicaSet_def mgo_DialWithInfo_def replicaset_CurrentConfig_def
        replicaset_Initiate_def session_Close_def emit_def Let_def
      split: option.splits prod.splits sum.splits if_splits)



subsection \<open>Removal of the definitions of earlier versions\<close>

lemma upstart_StopAndRemove_summary:
  assumes "upstart_StopAndRemove env n w = (r, w1)"
  shows "(\<exists>out. trace w1 = trace w @ [(OpStopAndRemove n, out)])
    \<and> files w1 = files w \<and> umask w1 = umask w \<and> lookPath w1 = lookPath w \<and> replicaSet w1 = replicaSet w
    \<and> (\<forall>m. m \<noteq> n \<longrightarrow> services w1 m = services w m \<and> (m \<in> running w1 \<longleftrightarrow> m \<in> running w))
    \<and> (\<forall>m. services w m = None \<longrightarrow> services w1 m = None)
    \<and> (services w n = None \<longrightarrow> r = Inr () \<and> services w1 = services w \<and> running w1 = running w)
    \<and> (r = Inr () \<longrightarrow> services w1 n = None)"
  using assms
  by (auto simp add: upstart_StopAndRemove_def emit_def split: if_splits option.splits)

lemma removeLoop_summary:
  "removeLoop env x N w = (r, w') \<Longrightarrow>
     (\<exists>t. trace w' = trace w @ t
          \<and> (\<forall>ev\<in>set t. \<exists>v. x \<le> v \<and> v < N \<and> fst ev = OpStopAndRemove (makeServiceName v)))
     \<and> files w' = files w \<and> umask w' = umask w \<and> lookPath w' = lookPath w
     \<and> replicaSet w' = replicaSet w
     \<and> (\<forall>n. (\<forall>v. x \<le> v \<and> v < N \<longrightarrow> n \<noteq> makeServiceName v)
            \<longrightarrow> services w' n = services w n \<and> (n \<in> running w' \<longleftrightarrow> n \<in> running w))
     \<and> (\<forall>n. services w n = None \<longrightarrow> services w' n = None)
     \<and> (r = Inr () \<longrightarrow> (\<forall>v. x \<le> v \<and> v < N \<longrightarrow> services w' (makeServiceName v) = None))"
proof (induction env x N w arbitrary: r w' rule: removeLoop.induct)
  case (1 env x N w)
  show ?case
  proof (cases "x < N")
    case False
    with "1.prems" show ?thesis
      by (auto simp add: removeLoop.simps [of env x N w])
  next
    case True
    obtain r1 w1 where s: "upstart_StopAndRemove env (makeServiceName x) w = (r1, w1)"
      by (cases "upstart_StopAndRemove env (makeServiceName x) w")
    note S = upstart_StopAndRemove_summary [OF s]
    show ?thesis
    proof (cases r1)
      case (Inl e)
      with "1.prems" True s have rw: "r = Inl e" "w' = w1"
        by (simp_all add: removeLoop.simps [of env x N w])
      from S True show ?thesis
        unfolding rw
        by (auto intro!: exI [of _ x] dest: makeServiceName_inj)
    next
      case (Inr u)
      with "1.prems" True s have rec: "removeLoop env (x + 1) N w1 = (r, w')"
        by (simp add: removeLoop.simps [of env x N w])
      note IH = "1.IH" [OF True s [symmetric] Inr rec]
      from IH have IHmono: "\<forall>n. services w1 n = None \<longrightarrow> services w' n = None"
        and IHgone: "r = Inr () \<longrightarrow> (\<forall>v. x + 1 \<le> v \<and> v < N \<longrightarrow> services w' (makeServiceName v) = None)"
        and IHkeep: "\<forall>n. (\<forall>v. x + 1 \<le> v \<and> v < N \<longrightarrow> n \<noteq> makeServiceName v)
            \<longrightarrow> services w' n = services w1 n \<and> (n \<in> running w' \<longleftrightarrow> n \<in> running w1)"
        by simp_all
      from S have Smono: "\<forall>m. services w m = None \<longrightarrow> services w1 m = None"
        and Skeep: "\<forall>m. m \<noteq> makeServiceName x \<longrightarrow> services w1 m = services w m \<and> (m \<in> running w1 \<longleftrightarrow> m \<in> running w)"
        by simp_all
      from IH obtain t where t: "trace w' = trace w1 @ t"
        and tev: "\<forall>ev\<in>set t. \<exists>v. x + 1 \<le> v \<and> v < N \<and> fst ev = OpStopAndRemove (makeServiceName v)"
        by blast
      from S obtain out where out: "trace w1 = trace w @ [(OpStopAndRemove (makeServiceName x), out)]"
        by blast
      have tr: "trace w' = trace w @ ((OpStopAndRemove (makeServiceName x), out) # t)"
        using t out by simp
      have ev: "\<forall>ev\<in>set ((OpStopAndRemove (makeServiceName x), out) # t).
                  \<exists>v. x \<le> v \<and> v < N \<and> fst ev = OpStopAndRemove (makeServiceName v)"
      proof
        fix ev assume "ev \<in> set ((OpStopAndRemove (makeServiceName x), out) # t)"
        then consider "ev = (OpStopAndRemove (makeServiceName x), out)" | "ev \<in> set t" by auto
        then show "\<exists>v. x \<le> v \<and> v < N \<and> fst ev = OpStopAndRemove (makeServiceName v)"
        proof cases
          case 1
          with True show ?thesis by (intro exI [of _ x]) simp
        next
          case 2
          with tev obtain v where "x + 1 \<le> v" "v < N" "fst ev = OpStopAndRemove (makeServiceName v)"
            by blast
          then show ?thesis by (intro exI [of _ v]) simp
        qed
      qed
      have frame: "files w' = files w" "umask w' = umask w" "lookPath w' = lookPath w"
        "replicaSet w' = replicaSet w"
        using IH S by simp_all
      have keep: "\<forall>n. (\<forall>v. x \<le> v \<and> v < N \<longrightarrow> n \<noteq> makeServiceName v)
            \<longrightarrow> services w' n = services w n \<and> (n \<in> running w' \<longleftrightarrow> n \<in> running w)"
      proof (intro allI impI)
        fix n assume n: "\<forall>v. x \<le> v \<and> v < N \<longrightarrow> n \<noteq> makeServiceName v"
        with True have "n \<noteq> makeServiceName x" by auto
        with Skeep have a: "services w1 n = services w n \<and> (n \<in> running w1 \<longleftrightarrow> n \<in> running w)"
          by simp
        from n have "\<forall>v. x + 1 \<le> v \<and> v < N \<longrightarrow> n \<noteq> makeServiceName v" by auto
        with IHkeep have "services w' n = services w1 n \<and> (n \<in> running w' \<longleftrightarrow> n \<in> running w1)"
          by simp
        with a show "services w' n = services w n \<and> (n \<in> running w' \<longleftrightarrow> n \<in> running w)"
          by simp
      qed
      have mono: "\<forall>n. services w n = None \<longrightarrow> services w' n = None"
        using IHmono Smono by simp
      have gone: "r = Inr () \<longrightarrow> (\<forall>v. x \<le> v \<and> v < N \<longrightarrow> services w' (makeServiceName v) = None)"
      proof (intro allI impI)
        fix v assume r: "r = Inr ()" and v: "x \<le> v \<and> v < N"
        show "services w' (makeServiceName v) = None"
        proof (cases "v = x")
          case True
          from S Inr have "services w1 (makeServiceName x) = None" by simp
          with IHmono True show ?thesis by simp
        next
          case False
          with v have "x + 1 \<le> v \<and> v < N" by simp
          with IHgone r show ?thesis by simp
        qed
      qed
      from tr ev frame keep mono gone show ?thesis by blast
    qed
  qed
qed

lemma removeOldMongoServices_summary:
  assumes "removeOldMongoServices env N w = (r, w')"
  shows "(\<exists>out t. trace w' = trace w @ (OpStopAndRemove oldMongoServiceName, out) # t
          \<and> (\<forall>ev\<in>set t. \<exists>v. 2 \<le> v \<and> v < N \<and> fst ev = OpStopAndRemove (makeServiceName v)))
     \<and> files w' = files w \<and> umask w' = umask w \<and> lookPath w' = lookPath w
     \<and> replicaSet w' = replicaSet w
     \<and> (\<forall>n. n \<noteq> oldMongoServiceName \<and> (\<forall>v. 2 \<le> v \<and> v < N \<longrightarrow> n \<noteq> makeServiceName v)
            \<longrightarrow> services w' n = services w n \<and> (n \<in> running w' \<longleftrightarrow> n \<in> running w))
     \<and> (\<forall>n. services w n = None \<longrightarrow> services w' n = None)
     \<and> (r = Inr () \<longrightarrow> services w' oldMongoServiceName = None
            \<and> (\<forall>v. 2 \<le> v \<and> v < N \<longrightarrow> services w' (makeServiceName v) = None))"
proof -
  obtain r1 w1 where s: "upstart_StopAndRemove env oldMongoServiceName w = (r1, w1)"
    by (cases "upstart_StopAndRemove env oldMongoServiceName w")
  note S = upstart_StopAndRemove_summary [OF s]
  show ?thesis
  proof (cases r1)
    case (Inl e)
    with assms s have rw: "r = Inl e" "w' = w1"
      by (simp_all add: removeOldMongoServices_def)
    from S show ?thesis unfolding rw by auto
  next
    case (Inr u)
    with assms s have rec: "removeLoop env 2 N w1 = (r, w')"
      by (simp add: removeOldMongoServices_def)
    note L = removeLoop_summary [OF rec]
    from L obtain t where t: "trace w' = trace w1 @ t"
      and tev: "\<forall>ev\<in>set t. \<exists>v. 2 \<le> v \<and> v < N \<and> fst ev = OpStopAndRemove (makeServiceName v)"
      by blast
    from S obtain out where out: "trace w1 = trace w @ [(OpStopAndRemove oldMongoServiceName, out)]"
      by blast
    have tr: "trace w' = trace w @ (OpStopAndRemove oldMongoServiceName, out) # t"
      using t out by simp
    have old: "services w' oldMongoServiceName = None"
      using S L Inr by simp
    have keep: "\<forall>n. n \<noteq> oldMongoServiceName \<and> (\<forall>v. 2 \<le> v \<and> v < N \<longrightarrow> n \<noteq> makeServiceName v)
            \<longrightarrow> services w' n = services w n \<and> (n \<in> running w' \<longleftrightarrow> n \<in> running w)"
      using S L by simp
    have mono: "\<forall>n. services w n = None \<longrightarrow> services w' n = None"
      using S L by simp
    have gone: "r = Inr () \<longrightarrow> (\<forall>v. 2 \<le> v \<and> v < N \<longrightarrow> services w' (makeServiceName v) = None)"
      using L by simp
    have frame: "files w' = files w" "umask w' = umask w" "lookPath w' = lookPath w"
      "replicaSet w' = replicaSet w"
      using L S by simp_all
    from tr tev old keep mono gone frame show ?thesis by blast
  qed
qed

subsection \<open>The journal preallocator\<close>

lemma same_outside_files_refl [simp]: "same_outside_files w w"
  by (simp add: same_outside_files_def)

lemma same_outside_files_trans:
  "same_outside_files w w1 \<Longrightarrow> same_outside_files w1 w2 \<Longrightarrow> same_outside_files w w2"
  by (simp add: same_outside_files_def)

lemma file_Write_summary:
  assumes "file_Write env f b w = (r, w1)"
  shows "(\<exists>out. trace w1 = trace w @ [(OpWrite f b, out)] \<and> (r = Inr (length b) \<longrightarrow> out = Done))
    \<and> same_outside_files w w1
    \<and> (\<forall>p. p \<noteq> f \<longrightarrow> files w1 p = files w p)
    \<and> (\<forall>p m. files w p = Some (Dir m) \<longrightarrow> files w1 p = Some (Dir m))
    \<and> (\<forall>n. r = Inr n \<longrightarrow> n = length b
          \<and> (\<exists>m c. files w f = Some (File m c) \<and> files w1 f = Some (File m (c @ b))))"
  using assms
  by (auto simp add: file_Write_def emit_def same_outside_files_def
      split: option.splits node.splits)

lemma os_OpenFile_summary:
  assumes "os_OpenFile env name perm w = (r, w1)"
  shows "(\<exists>out. trace w1 = trace w @ [(OpOpenFile name perm, out)] \<and> (\<forall>f. r = Inr f \<longrightarrow> out = Done))
    \<and> same_outside_files w w1
    \<and> (\<forall>p. p \<noteq> name \<longrightarrow> files w1 p = files w p)
    \<and> (\<forall>p m. files w p = Some (Dir m) \<longrightarrow> files w1 p = Some (Dir m))
    \<and> (\<forall>f. r = Inr f \<longrightarrow> f = name
          \<and> (\<exists>m. files w1 name = Some (File m [])
                 \<and> (files w name = None \<longrightarrow> m = perm AND NOT (umask w))))"
  using assms
  by (auto simp add: os_OpenFile_def emit_def same_outside_files_def
      split: option.splits node.splits)

lemma writeLoop_summary:
  "writeLoop env f filename tot w = (r, w') \<Longrightarrow>
     (\<exists>t. trace w' = trace w @ t \<and> (\<forall>ev\<in>set t. fst ev = OpWrite f zeroes)
          \<and> (\<forall>k. r = Inr () \<and> tot = 1024 * 1024 - int k * 65536
                 \<longrightarrow> t = replicate k (OpWrite f zeroes, Done)))
     \<and> same_outside_files w w'
     \<and> (\<forall>p. p \<noteq> f \<longrightarrow> files w' p = files w p)
     \<and> (\<forall>p m. files w p = Some (Dir m) \<longrightarrow> files w' p = Some (Dir m))
     \<and> (\<forall>k m c. r = Inr () \<and> tot = 1024 * 1024 - int k * 65536 \<and> files w f = Some (File m c)
            \<longrightarrow> files w' f = Some (File m (c @ replicate (k * 65536) 0)))"
proof (induction env f filename tot w arbitrary: r w' rule: writeLoop.induct)
  case (1 env f filename tot w)
  show ?case
  proof (cases "tot < 1024 * 1024")
    case False
    with "1.prems" have rw: "r = Inr ()" "w' = w"
      by (auto simp add: writeLoop.simps [of env f filename tot w])
    have "\<And>k. tot = 1024 * 1024 - int k * 65536 \<Longrightarrow> k = 0"
      using False by (cases "k = 0") auto
    then show ?thesis unfolding rw by auto
  next
    case True
    obtain r1 w1 where s: "file_Write env f zeroes w = (r1, w1)"
      by (cases "file_Write env f zeroes w")
    note S = file_Write_summary [OF s]
    from S obtain out where out: "trace w1 = trace w @ [(OpWrite f zeroes, out)]"
      and outDone: "r1 = Inr (length zeroes) \<longrightarrow> out = Done"
      by blast
    from S have Sframe: "same_outside_files w w1"
      and Sother: "\<forall>p. p \<noteq> f \<longrightarrow> files w1 p = files w p"
      and Sdirs: "\<forall>p m. files w p = Some (Dir m) \<longrightarrow> files w1 p = Some (Dir m)"
      and Swritten: "\<forall>n. r1 = Inr n \<longrightarrow> n = length zeroes
          \<and> (\<exists>m c. files w f = Some (File m c) \<and> files w1 f = Some (File m (c @ zeroes)))"
      by simp_all
    show ?thesis
    proof (cases r1)
      case (Inl e)
      with "1.prems" True s have rw: "r = Inl (WritePreallocError filename e)" "w' = w1"
        by (simp_all add: writeLoop.simps [of env f filename tot w])
      from out Sframe Sother Sdirs show ?thesis
        unfolding rw by auto
    next
      case (Inr n)
      with Swritten have n: "n = 65536" by (simp add: zeroes_def)
      from "1.prems" True s Inr have rec: "writeLoop env f filename (tot + int n) w1 = (r, w')"
        by (simp add: writeLoop.simps [of env f filename tot w])
      note IH = "1.IH" [OF True s [symmetric] Inr rec]
      from IH obtain t where t: "trace w' = trace w1 @ t"
        and tev: "\<forall>ev\<in>set t. fst ev = OpWrite f zeroes"
        and tk: "\<forall>k. r = Inr () \<and> tot + int n = 1024 * 1024 - int k * 65536
                 \<longrightarrow> t = replicate k (OpWrite f zeroes, Done)"
        by blast
      from IH have IHframe: "same_outside_files w1 w'"
        and IHother: "\<forall>p. p \<noteq> f \<longrightarrow> files w' p = files w1 p"
        and IHdirs: "\<forall>p m. files w1 p = Some (Dir m) \<longrightarrow> files w' p = Some (Dir m)"
        and IHcontent: "\<forall>k m c. r = Inr () \<and> tot + int n = 1024 * 1024 - int k * 65536
              \<and> files w1 f = Some (File m c)
            \<longrightarrow> files w' f = Some (File m (c @ replicate (k * 65536) 0))"
        by simp_all
      from outDone Inr Swritten have od: "out = Done" by simp
      have tr: "trace w' = trace w @ (OpWrite f zeroes, Done) # t"
        using t out od by simp
      have ev: "\<forall>ev\<in>set ((OpWrite f zeroes, Done) # t). fst ev = OpWrite f zeroes"
        using tev by simp
      have count: "\<forall>k. r = Inr () \<and> tot = 1024 * 1024 - int k * 65536
                 \<longrightarrow> (OpWrite f zeroes, Done) # t = replicate k (OpWrite f zeroes, Done)"
      proof (intro allI impI)
        fix k assume k: "r = Inr () \<and> tot = 1024 * 1024 - int k * 65536"
        with True obtain k' where k': "k = Suc k'" by (cases k) auto
        with k n have "tot + int n = 1024 * 1024 - int k' * 65536" by simp
        with tk k have "t = replicate k' (OpWrite f zeroes, Done)" by simp
        with k' show "(OpWrite f zeroes, Done) # t = replicate k (OpWrite f zeroes, Done)"
          by simp
      qed
      have content: "\<forall>k m c. r = Inr () \<and> tot = 1024 * 1024 - int k * 65536
              \<and> files w f = Some (File m c)
            \<longrightarrow> files w' f = Some (File m (c @ replicate (k * 65536) 0))"
      proof (intro allI impI)
        fix k m c
        assume a: "r = Inr () \<and> tot = 1024 * 1024 - int k * 65536 \<and> files w f = Some (File m c)"
        with True obtain k' where k': "k = Suc k'" by (cases k) auto
        with a n have tot': "tot + int n = 1024 * 1024 - int k' * 65536" by simp
        from Swritten Inr a have w1f: "files w1 f = Some (File m (c @ zeroes))" by auto
        from IHcontent a tot' w1f
        have "files w' f = Some (File m ((c @ zeroes) @ replicate (k' * 65536) 0))" by blast
        moreover have "zeroes @ replicate (k' * 65536) 0 = replicate (k * 65536) (0 :: 8 word)"
          unfolding zeroes_def k' by (simp add: replicate_add [symmetric] del: replicate_add)
        ultimately show "files w' f = Some (File m (c @ replicate (k * 65536) 0))" by simp
      qed
      have frame: "same_outside_files w w'"
        using Sframe IHframe by (rule same_outside_files_trans)
      have other: "\<forall>p. p \<noteq> f \<longrightarrow> files w' p = files w p"
        using Sother IHother by simp
      have dirs: "\<forall>p m. files w p = Some (Dir m) \<longrightarrow> files w' p = Some (Dir m)"
        using Sdirs IHdirs by simp
      from tr ev count content frame other dirs show ?thesis by blast
    qed
  qed
qed

lemma showInt_no_slash: "CHR ''/'' \<notin> set (showInt k)"
proof -
  have "\<And>n. CHR ''/'' \<notin> set (showNat n)"
  proof
    fix n assume "CHR ''/'' \<in> set (showNat n)"
    with showNat_digits [of n] have "CHR ''/'' \<in> set ''0123456789''" by blast
    then show False by simp
  qed
  then show ?thesis by (simp add: showInt_def)
qed

lemma simpleName_prealloc: "simpleName (''prealloc.'' @ showInt k)"
  using showInt_no_slash [of k] by (simp add: simpleName_def)

lemma preallocFile_eq: "preallocFile j k = joinPrefix j @ ''prealloc.'' @ showInt k"
  unfolding preallocFile_def filepath_Join_def
  by (rule path_Join_simpleName [OF simpleName_prealloc])

lemma preallocFile_inj: "preallocFile j k = preallocFile j k' \<Longrightarrow> k = k'"
  by (simp add: preallocFile_eq showInt_inj)

lemma preallocLoop_done: "\<not> x < 3 \<Longrightarrow> preallocLoop env j x deferred w = (Inr (), deferred, w)"
  by (simp add: preallocLoop.simps [of env j x deferred w])

lemma preallocLoop_step:
  "x < 3 \<Longrightarrow>
   preallocLoop env j x deferred w =
     (case os_OpenFile env (preallocFile j x) 448 w of
        (Inl e, w1) \<Rightarrow> (Inl (OpenPreallocError (preallocFile j x) e), deferred, w1)
      | (Inr f, w1) \<Rightarrow>
          (case writeLoop env f (preallocFile j x) 0 w1 of
             (Inl e, w2) \<Rightarrow> (Inl e, f # deferred, w2)
           | (Inr u, w2) \<Rightarrow> preallocLoop env j (x + 1) (f # deferred) w2))"
  by (subst preallocLoop.simps) (simp only: preallocFile_def Let_def if_True)

lemma preallocLoop_summary:
  "preallocLoop env j x deferred w = (r, d', w') \<Longrightarrow>
     (\<exists>t. trace w' = trace w @ t
          \<and> (\<forall>ev\<in>set t. (\<exists>k. x \<le> k \<and> k < 3 \<and> fst ev = OpOpenFile (preallocFile j k) 448)
                         \<or> (\<exists>k. x \<le> k \<and> k < 3 \<and> fst ev = OpWrite (preallocFile j k) zeroes))
          \<and> (r = Inr () \<longrightarrow>
                t = concat (map (\<lambda>k. (OpOpenFile (preallocFile j k) 448, Done)
                                       # replicate 16 (OpWrite (preallocFile j k) zeroes, Done))
                              [x..2])))
     \<and> same_outside_files w w'
     \<and> (\<forall>p. (\<forall>k. x \<le> k \<and> k < 3 \<longrightarrow> p \<noteq> preallocFile j k) \<longrightarrow> files w' p = files w p)
     \<and> (\<forall>p m. files w p = Some (Dir m) \<longrightarrow> files w' p = Some (Dir m))
     \<and> (r = Inr () \<longrightarrow>
          (\<forall>k. x \<le> k \<and> k < 3 \<longrightarrow>
             (\<exists>m. files w' (preallocFile j k) = Some (File m (replicate (1024 * 1024) 0))
                  \<and> (files w (preallocFile j k) = None \<longrightarrow> m = 448 AND NOT (umask w)))))
     \<and> (\<exists>ks. d' = map (preallocFile j) ks @ deferred \<and> (\<forall>k\<in>set ks. x \<le> k \<and> k < 3)
             \<and> (r = Inr () \<longrightarrow> ks = rev [x..2]))"
proof (induction "nat (3 - x)" arbitrary: x deferred w r d' w')
  case 0
  then have "\<not> x < 3" by simp
  with "0.prems" have rw: "r = Inr ()" "d' = deferred" "w' = w"
    by (simp_all add: preallocLoop_done)
  from \<open>\<not> x < 3\<close> have up: "[x..2] = []" by simp
  show ?case
    unfolding rw using \<open>\<not> x < 3\<close> up by (auto intro: exI [of _ "[]"])
next
  case (Suc n)
  then have True: "x < 3" by simp
  note prems = Suc.prems
  show ?case
  proof -
    let ?f = "preallocFile j x"
    obtain r1 w1 where o: "os_OpenFile env ?f 448 w = (r1, w1)"
      by (cases "os_OpenFile env ?f 448 w")
    note O = os_OpenFile_summary [OF o]
    from O obtain out where out: "trace w1 = trace w @ [(OpOpenFile ?f 448, out)]"
      and outDone: "\<forall>f. r1 = Inr f \<longrightarrow> out = Done" by blast
    from O have Oframe: "same_outside_files w w1"
      and Oother: "\<forall>p. p \<noteq> ?f \<longrightarrow> files w1 p = files w p"
      and Odirs: "\<forall>p m. files w p = Some (Dir m) \<longrightarrow> files w1 p = Some (Dir m)"
      by simp_all
    from O have Oopen: "\<forall>f. r1 = Inr f \<longrightarrow> f = ?f
          \<and> (\<exists>m. files w1 ?f = Some (File m [])
                 \<and> (files w ?f = None \<longrightarrow> m = 448 AND NOT (umask w)))"
      by (elim conjE)
    show ?thesis
    proof (cases r1)
      case (Inl e)
      with prems True o have rw: "r = Inl (OpenPreallocError ?f e)" "d' = deferred" "w' = w1"
        by (simp_all add: preallocLoop_step)
      have ev: "\<forall>ev\<in>set [(OpOpenFile ?f 448, out)].
          (\<exists>k. x \<le> k \<and> k < 3 \<and> fst ev = OpOpenFile (preallocFile j k) 448)
          \<or> (\<exists>k. x \<le> k \<and> k < 3 \<and> fst ev = OpWrite (preallocFile j k) zeroes)"
        using True by auto
      have other: "\<forall>p. (\<forall>k. x \<le> k \<and> k < 3 \<longrightarrow> p \<noteq> preallocFile j k) \<longrightarrow> files w1 p = files w p"
        using Oother True by auto
      have d: "\<exists>ks. deferred = map (preallocFile j) ks @ deferred \<and> (\<forall>k\<in>set ks. x \<le> k \<and> k < 3)
             \<and> (Inl (OpenPreallocError ?f e) = Inr () \<longrightarrow> ks = rev [x..2])"
        by (intro exI [of _ "[]"]) simp
      from out ev Oframe other Odirs d show ?thesis
        unfolding rw by blast
    next
      case (Inr f)
      with Oopen have f: "f = ?f" by simp
      from Oopen Inr obtain m0 where m0: "files w1 ?f = Some (File m0 [])"
        and m0new: "files w ?f = None \<longrightarrow> m0 = 448 AND NOT (umask w)"
        by auto
      obtain r2 w2 where wl: "writeLoop env ?f ?f 0 w1 = (r2, w2)"
        by (cases "writeLoop env ?f ?f 0 w1")
      note W = writeLoop_summary [OF wl]
      from W obtain t2 where t2: "trace w2 = trace w1 @ t2"
        and t2ev: "\<forall>ev\<in>set t2. fst ev = OpWrite ?f zeroes"
        and t2k: "\<forall>k. r2 = Inr () \<and> (0::int) = 1024 * 1024 - int k * 65536
                 \<longrightarrow> t2 = replicate k (OpWrite ?f zeroes, Done)"
        by blast
      from W have Wframe: "same_outside_files w1 w2"
        and Wother: "\<forall>p. p \<noteq> ?f \<longrightarrow> files w2 p = files w1 p"
        and Wdirs: "\<forall>p m. files w1 p = Some (Dir m) \<longrightarrow> files w2 p = Some (Dir m)"
        and Wcontent: "\<forall>k m c. r2 = Inr () \<and> (0::int) = 1024 * 1024 - int k * 65536
              \<and> files w1 ?f = Some (File m c)
            \<longrightarrow> files w2 ?f = Some (File m (c @ replicate (k * 65536) 0))"
        by simp_all
      have frame2: "same_outside_files w w2"
        using Oframe Wframe by (rule same_outside_files_trans)
      have other2: "\<forall>p. p \<noteq> ?f \<longrightarrow> files w2 p = files w p"
        using Oother Wother by simp
      have dirs2: "\<forall>p m. files w p = Some (Dir m) \<longrightarrow> files w2 p = Some (Dir m)"
        using Odirs Wdirs by simp
      have ev2: "\<forall>ev\<in>set ((OpOpenFile ?f 448, out) # t2).
          (\<exists>k. x \<le> k \<and> k < 3 \<and> fst ev = OpOpenFile (preallocFile j k) 448)
          \<or> (\<exists>k. x \<le> k \<and> k < 3 \<and> fst ev = OpWrite (preallocFile j k) zeroes)"
        using True t2ev by auto
      show ?thesis
      proof (cases r2)
        case (Inl e)
        with prems True o wl Inr f
        have rw: "r = Inl e" "d' = ?f # deferred" "w' = w2"
          by (simp_all add: preallocLoop_step)
        have tr: "trace w2 = trace w @ (OpOpenFile ?f 448, out) # t2"
          using out t2 by simp
        have other: "\<forall>p. (\<forall>k. x \<le> k \<and> k < 3 \<longrightarrow> p \<noteq> preallocFile j k) \<longrightarrow> files w2 p = files w p"
          using other2 True by auto
        have d: "\<exists>ks. ?f # deferred = map (preallocFile j) ks @ deferred
             \<and> (\<forall>k\<in>set ks. x \<le> k \<and> k < 3) \<and> (Inl e = Inr () \<longrightarrow> ks = rev [x..2])"
          using True by (intro exI [of _ "[x]"]) simp
        from tr ev2 frame2 other dirs2 d show ?thesis
          unfolding rw by blast
      next
        case r2: (Inr u)
        with prems True o wl Inr f
        have rec: "preallocLoop env j (x + 1) (?f # deferred) w2 = (r, d', w')"
          by (simp add: preallocLoop_step)
        have n: "n = nat (3 - (x + 1))" using Suc.hyps(2) by simp
        note IH = Suc.hyps(1) [OF n rec]
        from IH obtain t3 where t3: "trace w' = trace w2 @ t3"
          and t3ev: "\<forall>ev\<in>set t3.
              (\<exists>k. x + 1 \<le> k \<and> k < 3 \<and> fst ev = OpOpenFile (preallocFile j k) 448)
              \<or> (\<exists>k. x + 1 \<le> k \<and> k < 3 \<and> fst ev = OpWrite (preallocFile j k) zeroes)"
          and t3ok: "r = Inr () \<longrightarrow>
                t3 = concat (map (\<lambda>k. (OpOpenFile (preallocFile j k) 448, Done)
                                       # replicate 16 (OpWrite (preallocFile j k) zeroes, Done))
                              [x + 1..2])"
          by blast
        from IH have IHframe: "same_outside_files w2 w'"
          and IHother: "\<forall>p. (\<forall>k. x + 1 \<le> k \<and> k < 3 \<longrightarrow> p \<noteq> preallocFile j k)
                \<longrightarrow> files w' p = files w2 p"
          and IHdirs: "\<forall>p m. files w2 p = Some (Dir m) \<longrightarrow> files w' p = Some (Dir m)"
          and IHcontent: "r = Inr () \<longrightarrow>
            (\<forall>k. x + 1 \<le> k \<and> k < 3 \<longrightarrow>
               (\<exists>m. files w' (preallocFile j k) = Some (File m (replicate (1024 * 1024) 0))
                  \<and> (files w2 (preallocFile j k) = None \<longrightarrow> m = 448 AND NOT (umask w2))))"
          by simp_all
        from IH obtain ks where ks: "d' = map (preallocFile j) ks @ (?f # deferred)"
          and ksr: "\<forall>k\<in>set ks. x + 1 \<le> k \<and> k < 3"
          and ksok: "r = Inr () \<longrightarrow> ks = rev [x + 1..2]"
          by blast
        from outDone Inr have od: "out = Done" by simp
        from t2k r2 have t2eq: "t2 = replicate 16 (OpWrite ?f zeroes, Done)" by simp
        have up: "[x..2] = x # [x + 1..2]"
          using True by (simp add: upto_rec1)
        have tr: "trace w' = trace w @ ((OpOpenFile ?f 448, Done) # t2 @ t3)"
          using out t2 t3 od by simp
        have ev: "\<forall>ev\<in>set ((OpOpenFile ?f 448, Done) # t2 @ t3).
              (\<exists>k. x \<le> k \<and> k < 3 \<and> fst ev = OpOpenFile (preallocFile j k) 448)
              \<or> (\<exists>k. x \<le> k \<and> k < 3 \<and> fst ev = OpWrite (preallocFile j k) zeroes)"
        proof
          fix ev assume "ev \<in> set ((OpOpenFile ?f 448, Done) # t2 @ t3)"
          then consider "ev \<in> set ((OpOpenFile ?f 448, out) # t2)" | "ev \<in> set t3"
            using od by auto
          then show "(\<exists>k. x \<le> k \<and> k < 3 \<and> fst ev = OpOpenFile (preallocFile j k) 448)
              \<or> (\<exists>k. x \<le> k \<and> k < 3 \<and> fst ev = OpWrite (preallocFile j k) zeroes)"
          proof cases
            case 1
            with ev2 show ?thesis by blast
          next
            case 2
            with t3ev consider k where "x + 1 \<le> k" "k < 3" "fst ev = OpOpenFile (preallocFile j k) 448"
              | k where "x + 1 \<le> k" "k < 3" "fst ev = OpWrite (preallocFile j k) zeroes"
              by blast
            then show ?thesis
            proof cases
              case (1 k)
              then have "x \<le> k \<and> k < 3 \<and> fst ev = OpOpenFile (preallocFile j k) 448" by simp
              then show ?thesis by blast
            next
              case (2 k)
              then have "x \<le> k \<and> k < 3 \<and> fst ev = OpWrite (preallocFile j k) zeroes" by simp
              then show ?thesis by blast
            qed
          qed
        qed
        have ok: "r = Inr () \<longrightarrow>
                (OpOpenFile ?f 448, Done) # t2 @ t3
                  = concat (map (\<lambda>k. (OpOpenFile (preallocFile j k) 448, Done)
                                       # replicate 16 (OpWrite (preallocFile j k) zeroes, Done))
                              [x..2])"
          using t3ok t2eq unfolding up by simp
        have frame: "same_outside_files w w'"
          using frame2 IHframe by (rule same_outside_files_trans)
        have other: "\<forall>p. (\<forall>k. x \<le> k \<and> k < 3 \<longrightarrow> p \<noteq> preallocFile j k) \<longrightarrow> files w' p = files w p"
        proof (intro allI impI)
          fix p assume p: "\<forall>k. x \<le> k \<and> k < 3 \<longrightarrow> p \<noteq> preallocFile j k"
          with True have "p \<noteq> ?f" by auto
          with other2 have a: "files w2 p = files w p" by simp
          from p have "\<forall>k. x + 1 \<le> k \<and> k < 3 \<longrightarrow> p \<noteq> preallocFile j k" by auto
          with IHother have "files w' p = files w2 p" by simp
          with a show "files w' p = files w p" by simp
        qed
        have dirs: "\<forall>p m. files w p = Some (Dir m) \<longrightarrow> files w' p = Some (Dir m)"
          using dirs2 IHdirs by simp
        have w2f: "files w2 ?f = Some (File m0 (replicate (1024 * 1024) 0))"
        proof -
          from Wcontent [rule_format, of 16 m0 "[]"] r2 m0 show ?thesis by simp
        qed
        have keepf: "files w' ?f = files w2 ?f"
        proof -
          have "\<forall>k. x + 1 \<le> k \<and> k < 3 \<longrightarrow> ?f \<noteq> preallocFile j k"
            by (auto dest: preallocFile_inj)
          with IHother show ?thesis by simp
        qed
        have um: "umask w2 = umask w"
          using frame2 by (simp add: same_outside_files_def)
        have content: "r = Inr () \<longrightarrow>
            (\<forall>k. x \<le> k \<and> k < 3 \<longrightarrow>
               (\<exists>m. files w' (preallocFile j k) = Some (File m (replicate (1024 * 1024) 0))
                  \<and> (files w (preallocFile j k) = None \<longrightarrow> m = 448 AND NOT (umask w))))"
        proof (intro allI impI)
          fix k assume r: "r = Inr ()" and k: "x \<le> k \<and> k < 3"
          show "\<exists>m. files w' (preallocFile j k) = Some (File m (replicate (1024 * 1024) 0))
                  \<and> (files w (preallocFile j k) = None \<longrightarrow> m = 448 AND NOT (umask w))"
          proof (cases "k = x")
            case True
            with keepf w2f m0new show ?thesis by (intro exI [of _ m0]) simp
          next
            case False
            with k have k1: "x + 1 \<le> k \<and> k < 3" by simp
            with IHcontent r obtain m
              where m: "files w' (preallocFile j k) = Some (File m (replicate (1024 * 1024) 0))"
                and mnew: "files w2 (preallocFile j k) = None \<longrightarrow> m = 448 AND NOT (umask w2)"
              by blast
            from False have "preallocFile j k \<noteq> ?f" by (auto dest: preallocFile_inj)
            with other2 have "files w2 (preallocFile j k) = files w (preallocFile j k)" by simp
            with m mnew um show ?thesis by (intro exI [of _ m]) simp
          qed
        qed
        have d: "\<exists>ks'. d' = map (preallocFile j) ks' @ deferred \<and> (\<forall>k\<in>set ks'. x \<le> k \<and> k < 3)
             \<and> (r = Inr () \<longrightarrow> ks' = rev [x..2])"
        proof (intro exI [of _ "ks @ [x]"] conjI)
          show "d' = map (preallocFile j) (ks @ [x]) @ deferred" using ks by simp
          show "\<forall>k\<in>set (ks @ [x]). x \<le> k \<and> k < 3" using ksr True by auto
          show "r = Inr () \<longrightarrow> ks @ [x] = rev [x..2]" using ksok up by simp
        qed
        from tr ev ok frame other dirs content d show ?thesis by blast
      qed
    qed
  qed
qed

lemma os_Mkdir_summary:
  assumes "os_Mkdir path perm w = (r, w1)"
  shows "trace w1 = trace w \<and> same_outside_files w w1
    \<and> (\<forall>p. files w p \<noteq> None \<longrightarrow> files w1 p = files w p)
    \<and> (\<forall>p. files w p = None \<and> files w1 p \<noteq> None \<longrightarrow> files w1 p = Some (Dir (perm AND NOT (umask w))))
    \<and> (r = Inr () \<longrightarrow> files w path = None \<and> files w1 path = Some (Dir (perm AND NOT (umask w))))
    \<and> (\<forall>e. r = Inl e \<longrightarrow> w1 = w)"
  using assms
  by (auto simp add: os_Mkdir_def same_outside_files_def split: if_splits)

lemma mkdirAll_parent_shorter:
  "1 < length (rev (dropWhile (\<lambda>c. c \<noteq> CHR ''/'') (rev (rev (dropWhile (\<lambda>c. c = CHR ''/'') (rev path)))))) \<Longrightarrow>
   length (butlast (rev (dropWhile (\<lambda>c. c \<noteq> CHR ''/'') (rev (rev (dropWhile (\<lambda>c. c = CHR ''/'') (rev path)))))))
     < length path"
proof -
  let ?s1 = "rev (dropWhile (\<lambda>c. c = CHR ''/'') (rev path))"
  let ?s2 = "rev (dropWhile (\<lambda>c. c \<noteq> CHR ''/'') (rev ?s1))"
  assume len: "1 < length ?s2"
  have "length ?s2 \<le> length ?s1"
    using length_dropWhile_le [of "\<lambda>c. c \<noteq> CHR ''/''" "rev ?s1"] by simp
  moreover have "length ?s1 \<le> length path"
    using length_dropWhile_le [of "\<lambda>c. c = CHR ''/''" "rev path"] by simp
  ultimately show ?thesis using len by simp
qed

lemma mkdirAll_summary:
  "mkdirAll path perm w = (r, w') \<Longrightarrow>
     trace w' = trace w \<and> same_outside_files w w'
     \<and> (\<forall>p. files w p \<noteq> None \<longrightarrow> files w' p = files w p)
     \<and> (\<forall>p. files w p = None \<and> files w' p \<noteq> None
            \<longrightarrow> files w' p = Some (Dir (perm AND NOT (umask w))))
     \<and> (r = Inr () \<longrightarrow> (\<exists>m. files w' path = Some (Dir m)))"
proof (induction "length path" arbitrary: path w r w' rule: less_induct)
  case less
  note prems = less.prems
  let ?s1 = "rev (dropWhile (\<lambda>c. c = CHR ''/'') (rev path))"
  let ?s2 = "rev (dropWhile (\<lambda>c. c \<noteq> CHR ''/'') (rev ?s1))"
  show ?case
  proof (cases "files w path")
    case (Some n)
    with prems show ?thesis
      by (cases n) (auto simp add: mkdirAll.simps [of path perm w])
  next
    case None
    obtain r1 w1 where p: "(if length ?s2 > 1 then mkdirAll (butlast ?s2) perm w else (Inr (), w)) = (r1, w1)"
      by (cases "if length ?s2 > 1 then mkdirAll (butlast ?s2) perm w else (Inr (), w)")
    have P: "trace w1 = trace w \<and> same_outside_files w w1
       \<and> (\<forall>p. files w p \<noteq> None \<longrightarrow> files w1 p = files w p)
       \<and> (\<forall>p. files w p = None \<and> files w1 p \<noteq> None
            \<longrightarrow> files w1 p = Some (Dir (perm AND NOT (umask w))))"
    proof (cases "length ?s2 > 1")
      case True
      with p have m: "mkdirAll (butlast ?s2) perm w = (r1, w1)" by simp
      from less.hyps [OF mkdirAll_parent_shorter [OF True] m] show ?thesis by simp
    next
      case False
      with p show ?thesis by auto
    qed
    then have Ptrace: "trace w1 = trace w" and Pframe: "same_outside_files w w1"
      and Pold: "\<forall>p. files w p \<noteq> None \<longrightarrow> files w1 p = files w p"
      and Pnew: "\<forall>p. files w p = None \<and> files w1 p \<noteq> None
            \<longrightarrow> files w1 p = Some (Dir (perm AND NOT (umask w)))"
      by simp_all
    have um: "umask w1 = umask w" using Pframe by (simp add: same_outside_files_def)
    show ?thesis
    proof (cases r1)
      case (Inl e)
      with prems None p have "r = Inl e" "w' = w1"
        by (simp_all add: mkdirAll.simps [of path perm w] Let_def)
      with P show ?thesis by simp
    next
      case (Inr u)
      obtain r2 w2 where k: "os_Mkdir path perm w1 = (r2, w2)"
        by (cases "os_Mkdir path perm w1")
      note K = os_Mkdir_summary [OF k]
      from K have Ktrace: "trace w2 = trace w1" and Kframe: "same_outside_files w1 w2"
        and Kold: "\<forall>p. files w1 p \<noteq> None \<longrightarrow> files w2 p = files w1 p"
        and Knew: "\<forall>p. files w1 p = None \<and> files w2 p \<noteq> None
              \<longrightarrow> files w2 p = Some (Dir (perm AND NOT (umask w1)))"
        and Kok: "r2 = Inr () \<longrightarrow> files w2 path = Some (Dir (perm AND NOT (umask w1)))"
        by simp_all
      from prems None p Inr k have w': "w' = w2"
        by (auto simp add: mkdirAll.simps [of path perm w] Let_def split: sum.splits option.splits node.splits)
      from prems None p Inr k have rok: "r = Inr () \<longrightarrow> (\<exists>m. files w2 path = Some (Dir m))"
        using Kok
        by (auto simp add: mkdirAll.simps [of path perm w] Let_def split: sum.splits option.splits node.splits)
      have tr: "trace w2 = trace w" using Ptrace Ktrace by simp
      have frame: "same_outside_files w w2"
        using Pframe Kframe by (rule same_outside_files_trans)
      have old: "\<forall>p. files w p \<noteq> None \<longrightarrow> files w2 p = files w p"
        using Pold Kold by simp
      have new: "\<forall>p. files w p = None \<and> files w2 p \<noteq> None
            \<longrightarrow> files w2 p = Some (Dir (perm AND NOT (umask w)))"
      proof (intro allI impI)
        fix p assume a: "files w p = None \<and> files w2 p \<noteq> None"
        show "files w2 p = Some (Dir (perm AND NOT (umask w)))"
        proof (cases "files w1 p")
          case None
          with Knew a um show ?thesis by simp
        next
          case (Some n)
          with Kold have "files w2 p = files w1 p" by simp
          moreover from Pnew [rule_format, of p] a Some
          have "files w1 p = Some (Dir (perm AND NOT (umask w)))" by simp
          ultimately show ?thesis by simp
        qed
      qed
      from tr frame old new rok show ?thesis unfolding w' by blast
    qed
  qed
qed

lemma os_MkdirAll_summary:
  assumes "os_MkdirAll env path perm w = (r, w')"
  shows "(\<exists>out. trace w' = trace w @ [(OpMkdirAll path perm, out)] \<and> (r = Inr () \<longrightarrow> out = Done))
     \<and> same_outside_files w w'
     \<and> (\<forall>p. files w p \<noteq> None \<longrightarrow> files w' p = files w p)
     \<and> (\<forall>p. files w p = None \<and> files w' p \<noteq> None
            \<longrightarrow> files w' p = Some (Dir (perm AND NOT (umask w))))
     \<and> (r = Inr () \<longrightarrow> (\<exists>m. files w' path = Some (Dir m)))"
proof (cases "faults env (trace w) (OpMkdirAll path perm)")
  case (Some m)
  with assms show ?thesis
    by (auto simp add: os_MkdirAll_def emit_def same_outside_files_def)
next
  case None
  obtain r1 w1 where m: "mkdirAll path perm w = (r1, w1)"
    by (cases "mkdirAll path perm w")
  note M = mkdirAll_summary [OF m]
  from assms None m have w': "w' = emit (OpMkdirAll path perm) (case r1 of Inl e \<Rightarrow> Failed e | Inr u \<Rightarrow> Done) w1"
    and r: "r = r1"
    by (auto simp add: os_MkdirAll_def split: sum.splits)
  from M show ?thesis
    unfolding w' r
    by (auto simp add: emit_def same_outside_files_def split: sum.splits)
qed

lemma runDeferred_eq:
  "runDeferred fs w = w\<lparr>trace := trace w @ map (\<lambda>f. (OpClose f, Done)) fs\<rparr>"
  by (induction fs arbitrary: w) (simp_all add: file_Close_def emit_def)

lemma upto_0_2: "[0..2::int] = [0, 1, 2]"
  by (simp add: upto_rec1)

lemma makeJournalDirs_summary:
  assumes "makeJournalDirs env dir w = (r, w')"
  shows "(\<exists>t. trace w' = trace w @ t \<and> (\<forall>ev\<in>set t. isJournalOp (fst ev))
            \<and> (r = Inr () \<longrightarrow> t = journalTrace (path_Join [dir, ''journal''])))
     \<and> same_outside_files w w'
     \<and> (\<forall>p m. files w p = Some (Dir m) \<longrightarrow> files w' p = Some (Dir m))
     \<and> (\<forall>p. (\<forall>k. 0 \<le> k \<and> k < 3 \<longrightarrow> p \<noteq> preallocFile (path_Join [dir, ''journal'']) k)
              \<and> files w p \<noteq> None
            \<longrightarrow> files w' p = files w p)
     \<and> (\<forall>p. (\<forall>k. 0 \<le> k \<and> k < 3 \<longrightarrow> p \<noteq> preallocFile (path_Join [dir, ''journal'']) k)
              \<and> files w p = None \<and> files w' p \<noteq> None
            \<longrightarrow> files w' p = Some (Dir (448 AND NOT (umask w))))
     \<and> (r = Inr () \<longrightarrow>
          (\<exists>m. files w' (path_Join [dir, ''journal'']) = Some (Dir m))
          \<and> (\<forall>k. 0 \<le> k \<and> k < 3 \<longrightarrow>
                (\<exists>m. files w' (preallocFile (path_Join [dir, ''journal'']) k)
                       = Some (File m (replicate (1024 * 1024) 0)))))"
proof -
  let ?j = "path_Join [dir, ''journal'']"
  obtain r1 w1 where m: "os_MkdirAll env ?j 448 w = (r1, w1)"
    by (cases "os_MkdirAll env ?j 448 w")
  note M = os_MkdirAll_summary [OF m]
  from M obtain out where out: "trace w1 = trace w @ [(OpMkdirAll ?j 448, out)]"
    and outDone: "r1 = Inr () \<longrightarrow> out = Done"
    by blast
  from M have Mframe: "same_outside_files w w1"
    and Mold: "\<forall>p. files w p \<noteq> None \<longrightarrow> files w1 p = files w p"
    and Mnew: "\<forall>p. files w p = None \<and> files w1 p \<noteq> None
            \<longrightarrow> files w1 p = Some (Dir (448 AND NOT (umask w)))"
    and Mok: "r1 = Inr () \<longrightarrow> (\<exists>m. files w1 ?j = Some (Dir m))"
    by simp_all
  have Mdirs: "\<forall>p m. files w p = Some (Dir m) \<longrightarrow> files w1 p = Some (Dir m)"
    using Mold by simp
  show ?thesis
  proof (cases r1)
    case (Inl e)
    with assms m have rw: "r = Inl e" "w' = w1"
      by (simp_all add: makeJournalDirs_def Let_def del: path_Join.simps)
    have ev: "\<forall>ev\<in>set [(OpMkdirAll ?j 448, out)]. isJournalOp (fst ev)" by simp
    from out ev Mframe Mdirs Mold Mnew show ?thesis
      unfolding rw by (intro conjI) (blast, simp_all)
  next
    case (Inr u)
    obtain r2 d2 w2 where p: "preallocLoop env ?j 0 [] w1 = (r2, d2, w2)"
      by (cases "preallocLoop env ?j 0 [] w1")
    note P = preallocLoop_summary [OF p]
    from assms m Inr p have rw: "r = r2" "w' = runDeferred d2 w2"
      by (simp_all add: makeJournalDirs_def Let_def del: path_Join.simps)
    from P obtain t2 where t2: "trace w2 = trace w1 @ t2"
      and t2ev: "\<forall>ev\<in>set t2. (\<exists>k. 0 \<le> k \<and> k < 3 \<and> fst ev = OpOpenFile (preallocFile ?j k) 448)
                         \<or> (\<exists>k. 0 \<le> k \<and> k < 3 \<and> fst ev = OpWrite (preallocFile ?j k) zeroes)"
      and t2ok: "r2 = Inr () \<longrightarrow>
                t2 = concat (map (\<lambda>k. (OpOpenFile (preallocFile ?j k) 448, Done)
                                       # replicate 16 (OpWrite (preallocFile ?j k) zeroes, Done))
                              [0..2])"
      by blast
    from P have Pframe: "same_outside_files w1 w2"
      and Pother: "\<forall>p. (\<forall>k. 0 \<le> k \<and> k < 3 \<longrightarrow> p \<noteq> preallocFile ?j k) \<longrightarrow> files w2 p = files w1 p"
      and Pdirs: "\<forall>p m. files w1 p = Some (Dir m) \<longrightarrow> files w2 p = Some (Dir m)"
      and Pcontent: "r2 = Inr () \<longrightarrow>
          (\<forall>k. 0 \<le> k \<and> k < 3 \<longrightarrow>
             (\<exists>m. files w2 (preallocFile ?j k) = Some (File m (replicate (1024 * 1024) 0))
                  \<and> (files w1 (preallocFile ?j k) = None \<longrightarrow> m = 448 AND NOT (umask w1))))"
      by simp_all
    from P obtain ks where ks: "d2 = map (preallocFile ?j) ks @ []"
      and ksok: "r2 = Inr () \<longrightarrow> ks = rev [0..2]"
      by blast
    let ?t3 = "map (\<lambda>f. (OpClose f, Done)) d2"
    have tr: "trace (runDeferred d2 w2) = trace w @ ((OpMkdirAll ?j 448, out) # t2 @ ?t3)"
      using out t2 by (simp add: runDeferred_eq)
    have ev: "\<forall>ev\<in>set ((OpMkdirAll ?j 448, out) # t2 @ ?t3). isJournalOp (fst ev)"
      using t2ev by auto
    have ok: "r2 = Inr () \<longrightarrow> (OpMkdirAll ?j 448, out) # t2 @ ?t3 = journalTrace ?j"
      using t2ok ksok ks outDone Inr by (auto simp add: journalTrace_def upto_0_2)
    have fl: "files (runDeferred d2 w2) = files w2"
      by (simp add: runDeferred_eq)
    have frame: "same_outside_files w (runDeferred d2 w2)"
      using Mframe Pframe by (simp add: same_outside_files_def runDeferred_eq)
    have dirs: "\<forall>p m. files w p = Some (Dir m) \<longrightarrow> files (runDeferred d2 w2) p = Some (Dir m)"
      using Mdirs Pdirs fl by simp
    have old: "\<forall>p. (\<forall>k. 0 \<le> k \<and> k < 3 \<longrightarrow> p \<noteq> preallocFile ?j k) \<and> files w p \<noteq> None
            \<longrightarrow> files (runDeferred d2 w2) p = files w p"
      using Mold Pother fl by simp
    have new: "\<forall>p. (\<forall>k. 0 \<le> k \<and> k < 3 \<longrightarrow> p \<noteq> preallocFile ?j k)
              \<and> files w p = None \<and> files (runDeferred d2 w2) p \<noteq> None
            \<longrightarrow> files (runDeferred d2 w2) p = Some (Dir (448 AND NOT (umask w)))"
    proof (intro allI impI)
      fix p
      assume a: "(\<forall>k. 0 \<le> k \<and> k < 3 \<longrightarrow> p \<noteq> preallocFile ?j k)
              \<and> files w p = None \<and> files (runDeferred d2 w2) p \<noteq> None"
      with Pother fl have "files (runDeferred d2 w2) p = files w1 p" by simp
      with Mnew [rule_format, of p] a show "files (runDeferred d2 w2) p = Some (Dir (448 AND NOT (umask w)))"
        by simp
    qed
    have jdir: "r2 = Inr () \<longrightarrow> (\<exists>m. files (runDeferred d2 w2) ?j = Some (Dir m))"
      using Mok Inr Pdirs fl by auto
    have content: "r2 = Inr () \<longrightarrow>
          (\<forall>k. 0 \<le> k \<and> k < 3 \<longrightarrow>
                (\<exists>m. files (runDeferred d2 w2) (preallocFile ?j k)
                       = Some (File m (replicate (1024 * 1024) 0))))"
      using Pcontent fl by auto
    from tr ev ok frame dirs old new jdir content show ?thesis
      unfolding rw by (intro conjI) (blast, simp_all)
  qed
qed

subsection \<open>One convergence pass\<close>

lemma startIfStopped_summary:
  assumes "startIfStopped env service name w = (r, w')"
  shows "(\<exists>t. trace w' = trace w @ (OpRunning (Name service), Answered (Name service \<in> running w)) # t
            \<and> (Name service \<in> running w \<longrightarrow> t = [] \<and> r = Inr ())
            \<and> (Name service \<notin> running w \<longrightarrow>
                  (t = [(OpStart (Name service), Done)] \<and> r = Inr ())
                  \<or> (\<exists>e. t = [(OpStart (Name service), Failed e)] \<and> r = Inl (StartError name e))))
     \<and> services w' = services w \<and> files w' = files w \<and> umask w' = umask w
     \<and> lookPath w' = lookPath w \<and> replicaSet w' = replicaSet w
     \<and> (r = Inr () \<longrightarrow> running w' = insert (Name service) (running w))
     \<and> (\<forall>e. r = Inl e \<longrightarrow> running w' = running w)"
  using assms
  by (auto simp add: startIfStopped_def upstart_Running_def upstart_Start_def emit_def Let_def
      split: if_splits option.splits bool.splits)

lemma upstart_Install_summary:
  assumes "upstart_Install env c w = (r, w')"
  shows "((r = Inr () \<and> trace w' = trace w @ [(OpInstall c, Done)]
            \<and> services w' = (services w)(Name c \<mapsto> c))
          \<or> (\<exists>e. r = Inl e \<and> trace w' = trace w @ [(OpInstall c, Failed e)]
                \<and> services w' = services w))
     \<and> running w' = running w \<and> files w' = files w \<and> umask w' = umask w
     \<and> lookPath w' = lookPath w \<and> replicaSet w' = replicaSet w"
  using assms
  by (auto simp add: upstart_Install_def emit_def split: if_splits option.splits)

lemma installIfMissing_installed:
  assumes "services w (Name service) \<noteq> None"
  shows "installIfMissing env service dbDir w
           = (Inr (), emit (OpInstalled (Name service)) (Answered True) w)"
  using assms by (auto simp add: installIfMissing_def upstart_Installed_def Let_def)

lemma installIfMissing_summary:
  assumes "installIfMissing env service dbDir w = (r, w')"
  shows "(\<exists>t. trace w' = trace w @ (OpInstalled (Name service), Answered (services w (Name service) \<noteq> None)) # t
            \<and> (services w (Name service) \<noteq> None \<longrightarrow> t = [] \<and> r = Inr ())
            \<and> (\<forall>ev\<in>set t. isJournalOp (fst ev) \<or> fst ev = OpInstall service)
            \<and> (\<forall>c out. (OpInstall c, out) \<in> set t \<longrightarrow>
                  (out = Done \<and> r = Inr ()) \<or> (\<exists>e. out = Failed e \<and> r = Inl (InstallError (Name service) e)))
            \<and> (r = Inr () \<and> services w (Name service) = None \<longrightarrow>
                  t = journalTrace (path_Join [dbDir, ''journal'']) @ [(OpInstall service, Done)]))
     \<and> running w' = running w \<and> umask w' = umask w
     \<and> lookPath w' = lookPath w \<and> replicaSet w' = replicaSet w
     \<and> (services w (Name service) \<noteq> None \<longrightarrow> services w' = services w \<and> files w' = files w)
     \<and> (r = Inr () \<and> services w (Name service) = None \<longrightarrow>
            services w' = (services w)(Name service \<mapsto> service))
     \<and> (\<forall>e. r = Inl e \<longrightarrow> services w' = services w)"
proof (cases "services w (Name service) = None")
  case False
  with assms have rw: "r = Inr ()" "w' = emit (OpInstalled (Name service)) (Answered True) w"
    by (simp_all add: installIfMissing_installed)
  from False show ?thesis
    unfolding rw by (auto simp add: emit_def)
next
  case True
  let ?w0 = "emit (OpInstalled (Name service)) (Answered False) w"
  have w0: "trace ?w0 = trace w @ [(OpInstalled (Name service), Answered False)]"
    "services ?w0 = services w" "running ?w0 = running w" "umask ?w0 = umask w"
    "lookPath ?w0 = lookPath w" "replicaSet ?w0 = replicaSet w" "files ?w0 = files w"
    by (simp_all add: emit_def)
  obtain r1 w1 where j: "makeJournalDirs env dbDir ?w0 = (r1, w1)"
    by (cases "makeJournalDirs env dbDir ?w0")
  note J = makeJournalDirs_summary [OF j]
  from J obtain t1 where t1: "trace w1 = trace ?w0 @ t1"
    and t1ev: "\<forall>ev\<in>set t1. isJournalOp (fst ev)"
    and t1ok: "r1 = Inr () \<longrightarrow> t1 = journalTrace (path_Join [dbDir, ''journal''])"
    by blast
  from J have Jframe: "same_outside_files ?w0 w1" by simp
  show ?thesis
  proof (cases r1)
    case (Inl e)
    with assms True j have rw: "r = Inl (JournalDirsError e)" "w' = w1"
      by (simp_all add: installIfMissing_def upstart_Installed_def Let_def)
    have noinst: "\<forall>c out. (OpInstall c, out) \<notin> set t1"
      using t1ev by fastforce
    from t1 t1ev noinst Jframe True show ?thesis
      unfolding rw by (auto simp add: w0 same_outside_files_def)
  next
    case (Inr u)
    obtain r2 w2 where i: "upstart_Install env service w1 = (r2, w2)"
      by (cases "upstart_Install env service w1")
    note I = upstart_Install_summary [OF i]
    from assms True j Inr i have w': "w' = w2"
      and r: "r = (case r2 of Inl e \<Rightarrow> Inl (InstallError (Name service) e) | Inr u \<Rightarrow> Inr ())"
      by (auto simp add: installIfMissing_def upstart_Installed_def Let_def split: sum.splits)
    have noinst: "\<forall>c out. (OpInstall c, out) \<notin> set t1"
      using t1ev by fastforce
    from I consider (ok) "r2 = Inr ()" "trace w2 = trace w1 @ [(OpInstall service, Done)]"
          "services w2 = (services w1)(Name service \<mapsto> service)"
      | (bad) e where "r2 = Inl e" "trace w2 = trace w1 @ [(OpInstall service, Failed e)]"
          "services w2 = services w1"
      by blast
    then show ?thesis
    proof cases
      case ok
      from t1 t1ev t1ok noinst Jframe True I Inr ok show ?thesis
        unfolding w' r by (auto simp add: w0 same_outside_files_def)
    next
      case bad
      from t1 t1ev noinst Jframe True I bad show ?thesis
        unfolding w' r by (auto simp add: w0 same_outside_files_def)
    qed
  qed
qed

lemma mongoUpstartService_service:
  "\<exists>service. mongoUpstartService shQuote name dataDir dbDir port = Inr service
     \<and> Name service = name \<and> prefix ''/usr/bin/mongod'' (Cmd service)"
  by (simp add: mongoUpstartService_def Let_def del: path_Join.simps)

lemma ensureMongoServerAt_cases:
  assumes "ensureMongoServerAt env N address dataDir port info w = (r, w')"
  shows "(info = None \<and> r = Inl NilDereference \<and> w' = w)
    \<or> (\<exists>e. info \<noteq> None \<and> removeOldMongoServices env N w = (Inl e, w') \<and> r = Inl e)
    \<or> (\<exists>w1 service. info \<noteq> None \<and> removeOldMongoServices env N w = (Inr (), w1)
         \<and> mongoUpstartService (ShQuote env) (makeServiceName N) dataDir
              (filepath_Join [dataDir, ''db'']) port = Inr service
         \<and> Name service = makeServiceName N
         \<and> ((\<exists>e. installIfMissing env service (filepath_Join [dataDir, ''db'']) w1 = (Inl e, w')
                  \<and> r = Inl e)
            \<or> (\<exists>w2. installIfMissing env service (filepath_Join [dataDir, ''db'']) w1 = (Inr (), w2)
                \<and> ((\<exists>e. startIfStopped env service (makeServiceName N) w2 = (Inl e, w') \<and> r = Inl e)
                   \<or> (\<exists>w3. startIfStopped env service (makeServiceName N) w2 = (Inr (), w3)
                        \<and> ((\<exists>e. initiateReplicaSet env address port info w3 = (Inl e, w')
                                 \<and> r = Inl (ReplicasetError e))
                           \<or> (initiateReplicaSet env address port info w3 = (Inr (), w')
                                 \<and> r = Inr ())))))))"
proof -
  obtain service where s: "mongoUpstartService (ShQuote env) (makeServiceName N) dataDir
              (filepath_Join [dataDir, ''db'']) port = Inr service"
    and n: "Name service = makeServiceName N"
    using mongoUpstartService_service by blast
  show ?thesis
    using assms s n
    by (auto simp add: ensureMongoServerAt_def Let_def
        simp del: path_Join.simps
        split: option.splits prod.splits sum.splits)
qed

text \<open>The calls of one pass, block by block.\<close>

lemma removal_block_ex:
  assumes "removeOldMongoServices env N w = (r, w1)"
  shows "\<exists>t. trace w1 = trace w @ t
      \<and> (\<forall>ev\<in>set t. isRemoval (fst ev))
      \<and> (N \<le> 2 \<longrightarrow> ops t = [OpStopAndRemove oldMongoServiceName])
      \<and> files w1 = files w \<and> umask w1 = umask w \<and> lookPath w1 = lookPath w
      \<and> replicaSet w1 = replicaSet w
      \<and> services w1 (makeServiceName N) = services w (makeServiceName N)
      \<and> (makeServiceName N \<in> running w1 \<longleftrightarrow> makeServiceName N \<in> running w)
      \<and> (\<forall>n. services w n = None \<longrightarrow> services w1 n = None)
      \<and> (r = Inr () \<longrightarrow> services w1 oldMongoServiceName = None
            \<and> (\<forall>v. 2 \<le> v \<and> v < N \<longrightarrow> services w1 (makeServiceName v) = None))"
proof -
  note R = removeOldMongoServices_summary [OF assms]
  from R obtain out t where t: "trace w1 = trace w @ (OpStopAndRemove oldMongoServiceName, out) # t"
    and tev: "\<forall>ev\<in>set t. \<exists>v. 2 \<le> v \<and> v < N \<and> fst ev = OpStopAndRemove (makeServiceName v)"
    by blast
  from R have keep: "\<forall>n. n \<noteq> oldMongoServiceName \<and> (\<forall>v. 2 \<le> v \<and> v < N \<longrightarrow> n \<noteq> makeServiceName v)
            \<longrightarrow> services w1 n = services w n \<and> (n \<in> running w1 \<longleftrightarrow> n \<in> running w)"
    by simp
  have "makeServiceName N \<noteq> oldMongoServiceName \<and> (\<forall>v. 2 \<le> v \<and> v < N \<longrightarrow> makeServiceName N \<noteq> makeServiceName v)"
    using makeServiceName_not_old by (auto dest: makeServiceName_inj)
  with keep have cur: "services w1 (makeServiceName N) = services w (makeServiceName N)"
    "makeServiceName N \<in> running w1 \<longleftrightarrow> makeServiceName N \<in> running w"
    by simp_all
  have ev: "\<forall>ev\<in>set ((OpStopAndRemove oldMongoServiceName, out) # t). isRemoval (fst ev)"
    using tev by auto
  have only: "N \<le> 2 \<longrightarrow> ops ((OpStopAndRemove oldMongoServiceName, out) # t) = [OpStopAndRemove oldMongoServiceName]"
  proof
    assume "N \<le> 2"
    with tev have "t = []" by (cases t) auto
    then show "ops ((OpStopAndRemove oldMongoServiceName, out) # t) = [OpStopAndRemove oldMongoServiceName]"
      by (simp add: ops_def)
  qed
  from R have rest: "files w1 = files w" "umask w1 = umask w" "lookPath w1 = lookPath w"
      "replicaSet w1 = replicaSet w" "\<forall>n. services w n = None \<longrightarrow> services w1 n = None"
      "r = Inr () \<longrightarrow> services w1 oldMongoServiceName = None
            \<and> (\<forall>v. 2 \<le> v \<and> v < N \<longrightarrow> services w1 (makeServiceName v) = None)"
    by simp_all
  from t ev only cur rest show ?thesis by blast
qed

lemma install_block_raw:
  assumes "installIfMissing env service dbDir w = (r, w')"
  shows "\<exists>t. trace w' = trace w @ t
      \<and> (\<forall>ev\<in>set t. fst ev = OpInstalled (Name service) \<or> isJournalOp (fst ev)
                       \<or> fst ev = OpInstall service)
      \<and> (\<forall>b. (OpInstalled (Name service), Answered b) \<in> set t
              \<longrightarrow> b = (services w (Name service) \<noteq> None))
      \<and> (services w (Name service) \<noteq> None
            \<longrightarrow> t = [(OpInstalled (Name service), Answered True)] \<and> files w' = files w)
      \<and> (\<forall>c e. (OpInstall c, Failed e) \<in> set t \<longrightarrow> r = Inl (InstallError (Name service) e))
      \<and> (r = Inr () \<longrightarrow> (\<forall>c e. (OpInstall c, Failed e) \<notin> set t))
      \<and> running w' = running w \<and> umask w' = umask w \<and> lookPath w' = lookPath w
      \<and> replicaSet w' = replicaSet w
      \<and> (r = Inr () \<longrightarrow> services w' (Name service) \<noteq> None)
      \<and> (\<forall>n. n \<noteq> Name service \<longrightarrow> services w' n = services w n)"
proof -
  note I = installIfMissing_summary [OF assms]
  from I obtain t where t: "trace w' = trace w @ (OpInstalled (Name service), Answered (services w (Name service) \<noteq> None)) # t"
    and inst: "services w (Name service) \<noteq> None \<longrightarrow> t = [] \<and> r = Inr ()"
    and tev: "\<forall>ev\<in>set t. isJournalOp (fst ev) \<or> fst ev = OpInstall service"
    and tfail: "\<forall>c out. (OpInstall c, out) \<in> set t \<longrightarrow>
                  (out = Done \<and> r = Inr ()) \<or> (\<exists>e. out = Failed e \<and> r = Inl (InstallError (Name service) e))"
    by blast
  let ?t = "(OpInstalled (Name service), Answered (services w (Name service) \<noteq> None)) # t"
  have noq: "\<forall>b. (OpInstalled (Name service), Answered b) \<notin> set t"
    using tev by fastforce
  have 1: "\<forall>ev\<in>set ?t. fst ev = OpInstalled (Name service) \<or> isJournalOp (fst ev)
                       \<or> fst ev = OpInstall service"
    using tev by simp
  have 2: "\<forall>b. (OpInstalled (Name service), Answered b) \<in> set ?t
              \<longrightarrow> b = (services w (Name service) \<noteq> None)"
    using noq by auto
  have 3: "services w (Name service) \<noteq> None
            \<longrightarrow> ?t = [(OpInstalled (Name service), Answered True)] \<and> files w' = files w"
    using inst I by simp
  have 4: "\<forall>c e. (OpInstall c, Failed e) \<in> set ?t \<longrightarrow> r = Inl (InstallError (Name service) e)"
    using tfail by auto
  have 5: "r = Inr () \<longrightarrow> (\<forall>c e. (OpInstall c, Failed e) \<notin> set ?t)"
    using tfail by auto
  from I have 6: "running w' = running w" "umask w' = umask w" "lookPath w' = lookPath w"
      "replicaSet w' = replicaSet w"
    by simp_all
  from I have srv: "services w (Name service) \<noteq> None \<longrightarrow> services w' = services w"
      "r = Inr () \<and> services w (Name service) = None \<longrightarrow>
            services w' = (services w)(Name service \<mapsto> service)"
      "\<forall>e. r = Inl e \<longrightarrow> services w' = services w"
    by simp_all
  have 7: "r = Inr () \<longrightarrow> services w' (Name service) \<noteq> None"
    using srv by (cases "services w (Name service) = None") auto
  have 8: "\<forall>n. n \<noteq> Name service \<longrightarrow> services w' n = services w n"
    using srv by (cases r; cases "services w (Name service) = None") auto
  from t 1 2 3 4 5 6 7 8 show ?thesis by blast
qed

lemma install_block_ex:
  assumes "installIfMissing env service dbDir w = (r, w')" and "Name service = name"
  shows "\<exists>t. trace w' = trace w @ t
      \<and> (\<forall>ev\<in>set t. fst ev = OpInstalled name \<or> isJournalOp (fst ev)
                       \<or> fst ev = OpInstall service)
      \<and> (\<forall>b. (OpInstalled name, Answered b) \<in> set t
              \<longrightarrow> b = (services w name \<noteq> None))
      \<and> (services w name \<noteq> None
            \<longrightarrow> t = [(OpInstalled name, Answered True)] \<and> files w' = files w)
      \<and> (\<forall>c e. (OpInstall c, Failed e) \<in> set t \<longrightarrow> r = Inl (InstallError name e))
      \<and> (r = Inr () \<longrightarrow> (\<forall>c e. (OpInstall c, Failed e) \<notin> set t))
      \<and> running w' = running w \<and> umask w' = umask w \<and> lookPath w' = lookPath w
      \<and> replicaSet w' = replicaSet w
      \<and> (r = Inr () \<longrightarrow> services w' name \<noteq> None)
      \<and> (\<forall>n. n \<noteq> name \<longrightarrow> services w' n = services w n)"
  using install_block_raw [OF assms(1)] unfolding assms(2) .

lemma start_block_raw:
  assumes "startIfStopped env service name w = (r, w')"
  shows "\<exists>t. trace w' = trace w @ t
      \<and> (\<forall>ev\<in>set t. fst ev = OpRunning (Name service) \<or> fst ev = OpStart (Name service))
      \<and> (Name service \<in> running w \<longrightarrow> t = [(OpRunning (Name service), Answered True)])
      \<and> services w' = services w \<and> files w' = files w \<and> umask w' = umask w
      \<and> lookPath w' = lookPath w \<and> replicaSet w' = replicaSet w
      \<and> (r = Inr () \<longrightarrow> Name service \<in> running w')"
proof -
  note S = startIfStopped_summary [OF assms]
  from S obtain t where t: "trace w' = trace w @ (OpRunning (Name service), Answered (Name service \<in> running w)) # t"
    and run: "Name service \<in> running w \<longrightarrow> t = [] \<and> r = Inr ()"
    and stop: "Name service \<notin> running w \<longrightarrow>
                  (t = [(OpStart (Name service), Done)] \<and> r = Inr ())
                  \<or> (\<exists>e. t = [(OpStart (Name service), Failed e)] \<and> r = Inl (StartError name e))"
    by blast
  let ?t = "(OpRunning (Name service), Answered (Name service \<in> running w)) # t"
  have 1: "\<forall>ev\<in>set ?t. fst ev = OpRunning (Name service) \<or> fst ev = OpStart (Name service)"
    using run stop by (cases "Name service \<in> running w") auto
  have 2: "Name service \<in> running w \<longrightarrow> ?t = [(OpRunning (Name service), Answered True)]"
    using run by simp
  from S have 3: "services w' = services w" "files w' = files w" "umask w' = umask w"
      "lookPath w' = lookPath w" "replicaSet w' = replicaSet w"
      "r = Inr () \<longrightarrow> Name service \<in> running w'"
    by simp_all
  from t 1 2 3 show ?thesis by blast
qed

lemma start_block_ex:
  assumes "startIfStopped env service name' w = (r, w')" and "Name service = name"
  shows "\<exists>t. trace w' = trace w @ t
      \<and> (\<forall>ev\<in>set t. fst ev = OpRunning name \<or> fst ev = OpStart name)
      \<and> (name \<in> running w \<longrightarrow> t = [(OpRunning name, Answered True)])
      \<and> services w' = services w \<and> files w' = files w \<and> umask w' = umask w
      \<and> lookPath w' = lookPath w \<and> replicaSet w' = replicaSet w
      \<and> (r = Inr () \<longrightarrow> name \<in> running w')"
  using start_block_raw [OF assms(1)] unfolding assms(2) .

lemma initiate_block_ex:
  assumes "initiateReplicaSet env address port info w = (r, w')"
  shows "\<exists>t. trace w' = trace w @ t
      \<and> (\<forall>ev\<in>set t. isDial (fst ev) \<or> isQuery (fst ev) \<or> isInitiate (fst ev)
                       \<or> fst ev = OpSessionClose)
      \<and> (\<forall>d e. (OpDialWithInfo d, Failed e) \<in> set t
              \<longrightarrow> t = [(OpDialWithInfo d, Failed e)] \<and> r = Inl (DialError e))
      \<and> (replicaSet w \<noteq> None \<longrightarrow> (\<forall>ev\<in>set t. \<not> isInitiate (fst ev)))
      \<and> services w' = services w \<and> running w' = running w \<and> files w' = files w
      \<and> umask w' = umask w \<and> lookPath w' = lookPath w
      \<and> (r = Inr () \<longrightarrow> replicaSet w' \<noteq> None)"
  using initiateReplicaSet_cases [OF assms]
  by (elim disjE exE conjE) (simp_all add: emit_def)

lemma new_events_trans:
  assumes "trace w1 = trace w @ new_events w w1" and "trace w2 = trace w1 @ new_events w1 w2"
  shows "trace w2 = trace w @ new_events w w2"
    and "new_events w w2 = new_events w w1 @ new_events w1 w2"
proof -
  from assms have "trace w2 = trace w @ (new_events w w1 @ new_events w1 w2)" by simp
  then show "new_events w w2 = new_events w w1 @ new_events w1 w2"
    by (rule new_events_append)
  with assms show "trace w2 = trace w @ new_events w w2" by simp
qed

lemma removal_block:
  assumes "removeOldMongoServices env N w = (r, w1)"
  shows "trace w1 = trace w @ new_events w w1"
    and "\<forall>ev\<in>set (new_events w w1). isRemoval (fst ev)"
    and "N \<le> 2 \<longrightarrow> ops (new_events w w1) = [OpStopAndRemove oldMongoServiceName]"
    and "files w1 = files w"
    and "replicaSet w1 = replicaSet w"
    and "services w1 (makeServiceName N) = services w (makeServiceName N)"
    and "makeServiceName N \<in> running w1 \<longleftrightarrow> makeServiceName N \<in> running w"
    and "\<forall>n. services w n = None \<longrightarrow> services w1 n = None"
    and "r = Inr () \<longrightarrow> services w1 oldMongoServiceName = None
            \<and> (\<forall>v. 2 \<le> v \<and> v < N \<longrightarrow> services w1 (makeServiceName v) = None)"
proof -
  from removal_block_ex [OF assms] obtain t where t: "trace w1 = trace w @ t"
    and rest: "(\<forall>ev\<in>set t. isRemoval (fst ev))
      \<and> (N \<le> 2 \<longrightarrow> ops t = [OpStopAndRemove oldMongoServiceName])
      \<and> files w1 = files w \<and> umask w1 = umask w \<and> lookPath w1 = lookPath w
      \<and> replicaSet w1 = replicaSet w
      \<and> services w1 (makeServiceName N) = services w (makeServiceName N)
      \<and> (makeServiceName N \<in> running w1 \<longleftrightarrow> makeServiceName N \<in> running w)
      \<and> (\<forall>n. services w n = None \<longrightarrow> services w1 n = None)
      \<and> (r = Inr () \<longrightarrow> services w1 oldMongoServiceName = None
            \<and> (\<forall>v. 2 \<le> v \<and> v < N \<longrightarrow> services w1 (makeServiceName v) = None))"
    by (elim exE conjE) (rule that, assumption, intro conjI)
  from t have ne: "new_events w w1 = t" by (rule new_events_append)
  show "trace w1 = trace w @ new_events w w1" using t ne by simp
  show "\<forall>ev\<in>set (new_events w w1). isRemoval (fst ev)" using rest ne by simp
  show "N \<le> 2 \<longrightarrow> ops (new_events w w1) = [OpStopAndRemove oldMongoServiceName]" using rest ne by simp
  show "files w1 = files w" using rest by simp
  show "replicaSet w1 = replicaSet w" using rest by simp
  show "services w1 (makeServiceName N) = services w (makeServiceName N)" using rest by simp
  show "makeServiceName N \<in> running w1 \<longleftrightarrow> makeServiceName N \<in> running w" using rest by simp
  show "\<forall>n. services w n = None \<longrightarrow> services w1 n = None" using rest by simp
  show "r = Inr () \<longrightarrow> services w1 oldMongoServiceName = None
            \<and> (\<forall>v. 2 \<le> v \<and> v < N \<longrightarrow> services w1 (makeServiceName v) = None)"
    using rest by simp
qed

lemma install_block:
  assumes "installIfMissing env service dbDir w = (r, w')" and "Name service = name"
  shows "trace w' = trace w @ new_events w w'"
    and "\<forall>ev\<in>set (new_events w w'). fst ev = OpInstalled name \<or> isJournalOp (fst ev)
                       \<or> fst ev = OpInstall service"
    and "\<forall>b. (OpInstalled name, Answered b) \<in> set (new_events w w')
              \<longrightarrow> b = (services w name \<noteq> None)"
    and "services w name \<noteq> None
            \<longrightarrow> new_events w w' = [(OpInstalled name, Answered True)] \<and> files w' = files w"
    and "\<forall>c e. (OpInstall c, Failed e) \<in> set (new_events w w') \<longrightarrow> r = Inl (InstallError name e)"
    and "r = Inr () \<longrightarrow> (\<forall>c e. (OpInstall c, Failed e) \<notin> set (new_events w w'))"
    and "running w' = running w"
    and "replicaSet w' = replicaSet w"
    and "r = Inr () \<longrightarrow> services w' name \<noteq> None"
    and "\<forall>n. n \<noteq> name \<longrightarrow> services w' n = services w n"
proof -
  from install_block_ex [OF assms] obtain t where t: "trace w' = trace w @ t"
    and rest: "(\<forall>ev\<in>set t. fst ev = OpInstalled name \<or> isJournalOp (fst ev)
                       \<or> fst ev = OpInstall service)
      \<and> (\<forall>b. (OpInstalled name, Answered b) \<in> set t
              \<longrightarrow> b = (services w name \<noteq> None))
      \<and> (services w name \<noteq> None
            \<longrightarrow> t = [(OpInstalled name, Answered True)] \<and> files w' = files w)
      \<and> (\<forall>c e. (OpInstall c, Failed e) \<in> set t \<longrightarrow> r = Inl (InstallError name e))
      \<and> (r = Inr () \<longrightarrow> (\<forall>c e. (OpInstall c, Failed e) \<notin> set t))
      \<and> running w' = running w \<and> umask w' = umask w \<and> lookPath w' = lookPath w
      \<and> replicaSet w' = replicaSet w
      \<and> (r = Inr () \<longrightarrow> services w' name \<noteq> None)
      \<and> (\<forall>n. n \<noteq> name \<longrightarrow> services w' n = services w n)"
    by (elim exE conjE) (rule that, assumption, intro conjI)
  from t have ne: "new_events w w' = t" by (rule new_events_append)
  show "trace w' = trace w @ new_events w w'" using t ne by simp
  show "\<forall>ev\<in>set (new_events w w'). fst ev = OpInstalled name \<or> isJournalOp (fst ev)
                       \<or> fst ev = OpInstall service" using rest ne by simp
  show "\<forall>b. (OpInstalled name, Answered b) \<in> set (new_events w w')
              \<longrightarrow> b = (services w name \<noteq> None)" using rest ne by simp
  show "services w name \<noteq> None
            \<longrightarrow> new_events w w' = [(OpInstalled name, Answered True)] \<and> files w' = files w"
    using rest ne by simp
  show "\<forall>c e. (OpInstall c, Failed e) \<in> set (new_events w w') \<longrightarrow> r = Inl (InstallError name e)"
    using rest ne by simp
  show "r = Inr () \<longrightarrow> (\<forall>c e. (OpInstall c, Failed e) \<notin> set (new_events w w'))"
    using rest ne by simp
  show "running w' = running w" using rest by simp
  show "replicaSet w' = replicaSet w" using rest by simp
  show "r = Inr () \<longrightarrow> services w' name \<noteq> None" using rest by simp
  show "\<forall>n. n \<noteq> name \<longrightarrow> services w' n = services w n" using rest by simp
qed

lemma start_block:
  assumes "startIfStopped env service name' w = (r, w')" and "Name service = name"
  shows "trace w' = trace w @ new_events w w'"
    and "\<forall>ev\<in>set (new_events w w'). fst ev = OpRunning name \<or> fst ev = OpStart name"
    and "name \<in> running w \<longrightarrow> new_events w w' = [(OpRunning name, Answered True)]"
    and "services w' = services w"
    and "files w' = files w"
    and "replicaSet w' = replicaSet w"
    and "r = Inr () \<longrightarrow> name \<in> running w'"
proof -
  from start_block_ex [OF assms] obtain t where t: "trace w' = trace w @ t"
    and rest: "(\<forall>ev\<in>set t. fst ev = OpRunning name \<or> fst ev = OpStart name)
      \<and> (name \<in> running w \<longrightarrow> t = [(OpRunning name, Answered True)])
      \<and> services w' = services w \<and> files w' = files w \<and> umask w' = umask w
      \<and> lookPath w' = lookPath w \<and> replicaSet w' = replicaSet w
      \<and> (r = Inr () \<longrightarrow> name \<in> running w')"
    by (elim exE conjE) (rule that, assumption, intro conjI)
  from t have ne: "new_events w w' = t" by (rule new_events_append)
  show "trace w' = trace w @ new_events w w'" using t ne by simp
  show "\<forall>ev\<in>set (new_events w w'). fst ev = OpRunning name \<or> fst ev = OpStart name"
    using rest ne by simp
  show "name \<in> running w \<longrightarrow> new_events w w' = [(OpRunning name, Answered True)]"
    using rest ne by simp
  show "services w' = services w" using rest by simp
  show "files w' = files w" using rest by simp
  show "replicaSet w' = replicaSet w" using rest by simp
  show "r = Inr () \<longrightarrow> name \<in> running w'" using rest by simp
qed

lemma initiate_block:
  assumes "initiateReplicaSet env address port info w = (r, w')"
  shows "trace w' = trace w @ new_events w w'"
    and "\<forall>ev\<in>set (new_events w w'). isDial (fst ev) \<or> isQuery (fst ev) \<or> isInitiate (fst ev)
                       \<or> fst ev = OpSessionClose"
    and "\<forall>d e. (OpDialWithInfo d, Failed e) \<in> set (new_events w w')
              \<longrightarrow> new_events w w' = [(OpDialWithInfo d, Failed e)] \<and> r = Inl (DialError e)"
    and "replicaSet w \<noteq> None \<longrightarrow> (\<forall>ev\<in>set (new_events w w'). \<not> isInitiate (fst ev))"
    and "services w' = services w"
    and "running w' = running w"
    and "files w' = files w"
    and "r = Inr () \<longrightarrow> replicaSet w' \<noteq> None"
proof -
  from initiate_block_ex [OF assms] obtain t where t: "trace w' = trace w @ t"
    and rest: "(\<forall>ev\<in>set t. isDial (fst ev) \<or> isQuery (fst ev) \<or> isInitiate (fst ev)
                       \<or> fst ev = OpSessionClose)
      \<and> (\<forall>d e. (OpDialWithInfo d, Failed e) \<in> set t
              \<longrightarrow> t = [(OpDialWithInfo d, Failed e)] \<and> r = Inl (DialError e))
      \<and> (replicaSet w \<noteq> None \<longrightarrow> (\<forall>ev\<in>set t. \<not> isInitiate (fst ev)))
      \<and> services w' = services w \<and> running w' = running w \<and> files w' = files w
      \<and> umask w' = umask w \<and> lookPath w' = lookPath w
      \<and> (r = Inr () \<longrightarrow> replicaSet w' \<noteq> None)"
    by (elim exE conjE) (rule that, assumption, intro conjI)
  from t have ne: "new_events w w' = t" by (rule new_events_append)
  show "trace w' = trace w @ new_events w w'" using t ne by simp
  show "\<forall>ev\<in>set (new_events w w'). isDial (fst ev) \<or> isQuery (fst ev) \<or> isInitiate (fst ev)
                       \<or> fst ev = OpSessionClose" using rest ne by simp
  show "\<forall>d e. (OpDialWithInfo d, Failed e) \<in> set (new_events w w')
              \<longrightarrow> new_events w w' = [(OpDialWithInfo d, Failed e)] \<and> r = Inl (DialError e)"
    using rest ne by simp
  show "replicaSet w \<noteq> None \<longrightarrow> (\<forall>ev\<in>set (new_events w w'). \<not> isInitiate (fst ev))"
    using rest ne by simp
  show "services w' = services w" using rest by simp
  show "running w' = running w" using rest by simp
  show "files w' = files w" using rest by simp
  show "r = Inr () \<longrightarrow> replicaSet w' \<noteq> None" using rest by simp
qed

lemma op_kinds:
  "isRemoval a = (kindOf a = KRemoval)"
  "isInstall a = (kindOf a = KInstall)"
  "isStart a = (kindOf a = KStart)"
  "isJournalOp a = (kindOf a = KJournal)"
  "isDial a = (kindOf a = KDial)"
  "isQuery a = (kindOf a = KQuery)"
  "isInitiate a = (kindOf a = KInitiate)"
  "isResolution a = (kindOf a = KResolution)"
  by (cases a; simp)+

lemma ensureMongoServerAt_pass:
  assumes run: "ensureMongoServerAt env N address dataDir port info w = (r, w')"
  shows "\<exists>service t.
      mongoUpstartService (ShQuote env) (makeServiceName N) dataDir
          (filepath_Join [dataDir, ''db'']) port = Inr service
    \<and> Name service = makeServiceName N
    \<and> trace w' = trace w @ t
    \<and> new_events w w' = t
    \<and> passFacts N service w r w' t"
proof -
  let ?name = "makeServiceName N"
  let ?dbDir = "filepath_Join [dataDir, ''db'']"
  obtain service where svc: "mongoUpstartService (ShQuote env) ?name dataDir ?dbDir port = Inr service"
    and nm: "Name service = ?name"
    using mongoUpstartService_service by blast
  have legacy_ne: "\<And>v. v < N \<Longrightarrow> makeServiceName v \<noteq> ?name"
    by (auto dest: makeServiceName_inj)
  have old_ne: "oldMongoServiceName \<noteq> ?name"
    using makeServiceName_not_old [of N] by simp
  from ensureMongoServerAt_cases [OF run]
  consider (nil) "info = None" "r = Inl NilDereference" "w' = w"
    | (remove) e where "removeOldMongoServices env N w = (Inl e, w')" "r = Inl e"
    | (install) w1 e where "removeOldMongoServices env N w = (Inr (), w1)"
        "installIfMissing env service ?dbDir w1 = (Inl e, w')" "r = Inl e"
    | (start) w1 w2 e where "removeOldMongoServices env N w = (Inr (), w1)"
        "installIfMissing env service ?dbDir w1 = (Inr (), w2)"
        "startIfStopped env service ?name w2 = (Inl e, w')" "r = Inl e"
    | (initiate) w1 w2 w3 rr where "removeOldMongoServices env N w = (Inr (), w1)"
        "installIfMissing env service ?dbDir w1 = (Inr (), w2)"
        "startIfStopped env service ?name w2 = (Inr (), w3)"
        "initiateReplicaSet env address port info w3 = (rr, w')"
        "r = (case rr of Inl e \<Rightarrow> Inl (ReplicasetError e) | Inr u \<Rightarrow> Inr ())"
    using svc by (elim disjE exE conjE) auto
  then have "trace w' = trace w @ new_events w w' \<and> passFacts N service w r w' (new_events w w')"
  proof cases
    case nil
    then show ?thesis by (simp add: passFacts_def)
  next
    case remove
    note R = removal_block [OF remove(1)]
    have "passFacts N service w r w' (new_events w w')"
      unfolding passFacts_def
      apply (intro conjI)
      subgoal using R(2) by blast
      subgoal using R(2) by (auto simp add: op_kinds)
      subgoal using R(2) by (auto simp add: op_kinds)
      subgoal using R(2) by (auto simp add: op_kinds)
      subgoal using R(2) R(4) by (auto simp add: op_kinds)
      subgoal using R(2) by (auto simp add: op_kinds)
      subgoal using R(2) by (auto simp add: op_kinds)
      subgoal using remove(2) by simp
      done
    with R(1) show ?thesis by simp
  next
    case install
    note R = removal_block [OF install(1)]
    note I = install_block [OF install(2) nm]
    note T = new_events_trans [OF R(1) I(1)]
    have "passFacts N service w r w' (new_events w w')"
      unfolding passFacts_def T(2)
      apply (intro conjI)
      subgoal using R(2) I(2) by (auto simp add: op_kinds)
      subgoal using R(2) I(2) I(5) install(3) by (auto simp add: op_kinds)
      subgoal using R(2) I(2) by (auto simp add: op_kinds)
      subgoal using R(2) I(3) R(6) by (auto simp add: op_kinds)
      subgoal using R(2) I(4) R(6) R(4) by (auto simp add: op_kinds)
      subgoal using R(2) I(2) by (auto simp add: op_kinds)
      subgoal using R(2) I(2) by (auto simp add: op_kinds)
      subgoal using install(3) by simp
      done
    with T(1) show ?thesis by simp
  next
    case start
    note R = removal_block [OF start(1)]
    note I = install_block [OF start(2) nm]
    note S = start_block [OF start(3) nm]
    note T1 = new_events_trans [OF R(1) I(1)]
    note T = new_events_trans [OF T1(1) S(1)]
    have ne: "new_events w w' = new_events w w1 @ new_events w1 w2 @ new_events w2 w'"
      using T(2) T1(2) by simp
    have "passFacts N service w r w' (new_events w w')"
      unfolding passFacts_def ne
      apply (intro conjI)
      subgoal using R(2) I(2) S(2) by (auto simp add: op_kinds)
      subgoal using R(2) I(6) S(2) by (auto simp add: op_kinds)
      subgoal using R(2) I(2) S(2) by (auto simp add: op_kinds)
      subgoal using R(2) I(3) S(2) R(6) by (auto simp add: op_kinds)
      subgoal using R(2) I(4) S(2) R(6) R(4) S(5) by (auto simp add: op_kinds)
      subgoal using R(2) I(2) S(3) R(7) I(7) by (auto simp add: op_kinds)
      subgoal using R(2) I(2) S(2) by (auto simp add: op_kinds)
      subgoal using start(4) by simp
      done
    with T(1) show ?thesis by simp
  next
    case initiate
    note R = removal_block [OF initiate(1)]
    note I = install_block [OF initiate(2) nm]
    note S = start_block [OF initiate(3) nm]
    note D = initiate_block [OF initiate(4)]
    note T1 = new_events_trans [OF R(1) I(1)]
    note T2 = new_events_trans [OF T1(1) S(1)]
    note T = new_events_trans [OF T2(1) D(1)]
    have ne: "new_events w w' = new_events w w1 @ new_events w1 w2 @ new_events w2 w3 @ new_events w3 w'"
      using T(2) T2(2) T1(2) by simp
    have rok: "r = Inr () \<Longrightarrow> rr = Inr ()"
      using initiate(5) by (cases rr) auto
    have "passFacts N service w r w' (new_events w w')"
      unfolding passFacts_def ne
      apply (intro conjI)
      subgoal using R(2) I(2) S(2) D(2) by (auto simp add: op_kinds)
      subgoal using R(2) I(6) S(2) D(2) by (auto simp add: op_kinds)
      subgoal
      proof (intro allI impI)
        fix d e
        assume "(OpDialWithInfo d, Failed e)
          \<in> set (new_events w w1 @ new_events w1 w2 @ new_events w2 w3 @ new_events w3 w')"
        with R(2) I(2) S(2) have "(OpDialWithInfo d, Failed e) \<in> set (new_events w3 w')"
          by (auto simp add: op_kinds)
        with D(3) have a: "new_events w3 w' = [(OpDialWithInfo d, Failed e)]" "rr = Inl (DialError e)"
          by simp_all
        from a(2) initiate(5) have "r = Inl (ReplicasetError (DialError e))" by simp
        moreover have "\<forall>ev\<in>set (new_events w w1 @ new_events w1 w2 @ new_events w2 w3 @ new_events w3 w').
            \<not> isQuery (fst ev) \<and> \<not> isInitiate (fst ev)"
          using R(2) I(2) S(2) unfolding a(1) by (auto simp add: op_kinds)
        ultimately show "r = Inl (ReplicasetError (DialError e))
          \<and> (\<forall>ev\<in>set (new_events w w1 @ new_events w1 w2 @ new_events w2 w3 @ new_events w3 w').
                \<not> isQuery (fst ev) \<and> \<not> isInitiate (fst ev))"
          by simp
      qed
      subgoal using R(2) I(3) S(2) D(2) R(6) by (auto simp add: op_kinds)
      subgoal using R(2) I(4) S(2) D(2) R(6) R(4) S(5) D(7) by (auto simp add: op_kinds)
      subgoal using R(2) I(2) S(3) D(2) R(7) I(7) by (auto simp add: op_kinds)
      subgoal using R(2) I(2) S(2) D(4) R(5) I(8) S(6) by (auto simp add: op_kinds)
      subgoal
      proof
        assume "r = Inr ()"
        then have rr: "rr = Inr ()" by (rule rok)
        have "services w' ?name \<noteq> None" using D(5) S(4) I(9) by simp
        moreover have "?name \<in> running w'" using D(6) S(7) by simp
        moreover have "replicaSet w' \<noteq> None" using D(8) rr by simp
        moreover have "services w' oldMongoServiceName = None"
          using D(5) S(4) I(10) R(9) old_ne by simp
        moreover have "\<forall>v. 2 \<le> v \<and> v < N \<longrightarrow> services w' (makeServiceName v) = None"
          using D(5) S(4) I(10) R(9) legacy_ne by simp
        moreover have "\<forall>n. services w n = None \<and> n \<noteq> ?name \<longrightarrow> services w' n = None"
          using D(5) S(4) I(10) R(8) by simp
        ultimately show "services w' ?name \<noteq> None \<and> ?name \<in> running w'
          \<and> replicaSet w' \<noteq> None
          \<and> services w' oldMongoServiceName = None
          \<and> (\<forall>v. 2 \<le> v \<and> v < N \<longrightarrow> services w' (makeServiceName v) = None)
          \<and> (\<forall>n. services w n = None \<and> n \<noteq> ?name \<longrightarrow> services w' n = None)"
          by blast
      qed
      done
    with T(1) show ?thesis by simp
  qed
  with svc nm show ?thesis by blast
qed

subsection \<open>Runs of the scenarios\<close>

lemma writeLoop_step:
  "tot < 1024 * 1024 \<Longrightarrow>
   writeLoop env f filename tot w =
     (case file_Write env f zeroes w of
        (Inl e, w1) \<Rightarrow> (Inl (WritePreallocError filename e), w1)
      | (Inr n, w1) \<Rightarrow> writeLoop env f filename (tot + int n) w1)"
  by (subst writeLoop.simps) simp

lemma writeLoop_stop: "\<not> tot < 1024 * 1024 \<Longrightarrow> writeLoop env f filename tot w = (Inr (), w)"
  by (subst writeLoop.simps) simp

lemma removeLoop_step:
  "x < N \<Longrightarrow>
   removeLoop env x N w =
     (case upstart_StopAndRemove env (makeServiceName x) w of
        (Inl e, w1) \<Rightarrow> (Inl e, w1)
      | (Inr u, w1) \<Rightarrow> removeLoop env (x + 1) N w1)"
  by (subst removeLoop.simps) simp

lemma removeLoop_stop: "\<not> x < N \<Longrightarrow> removeLoop env x N w = (Inr (), w)"
  by (subst removeLoop.simps) simp

lemma path_eval:
  "path_Join [''/var/lib/x'', ''db''] = ''/var/lib/x/db''"
  "path_Join [''/var/lib/x'', ''server.pem''] = ''/var/lib/x/server.pem''"
  "path_Join [''/var/lib/x/db'', ''journal''] = ''/var/lib/x/db/journal''"
  "path_Join [''/var/lib/x/db/journal'', ''prealloc.0''] = ''/var/lib/x/db/journal/prealloc.0''"
  "path_Join [''/var/lib/x/db/journal'', ''prealloc.1''] = ''/var/lib/x/db/journal/prealloc.1''"
  "path_Join [''/var/lib/x/db/journal'', ''prealloc.2''] = ''/var/lib/x/db/journal/prealloc.2''"
  by (simp_all add: path_Clean_def cleanLoop_Nil cleanLoop_slash cleanLoop_elem)

lemma show_eval:
  "showInt 0 = ''0''" "showInt 1 = ''1''" "showInt 2 = ''2''" "showInt 37017 = ''37017''"
  "showInt 65000 = ''65000''" "showInt 20000 = ''20000''"
  by (simp_all add: showInt_def showNat_lt10 showNat_ge10 digit_def)

lemma mkdir_eval:
  "mkdirAll ''/var/lib/x/db/journal'' 448 (emit a b freshWorld) =
     (Inr (), (emit a b freshWorld)\<lparr>files := (files freshWorld)
        (''/var/lib/x/db'' \<mapsto> Dir 448, ''/var/lib/x/db/journal'' \<mapsto> Dir 448)\<rparr>)"
  by (simp add: mkdirAll.simps os_Mkdir_def emit_def freshWorld_def Let_def)

lemmas run_defs =
  ensureMongoServer_def ensureMongoServerAt_def mongoScriptVersion_def
  removeOldMongoServices_def removeLoop_step removeLoop_stop
  installIfMissing_def startIfStopped_def initiateReplicaSet_def makeJournalDirs_def
  upstart_Installed_def upstart_Running_def upstart_Install_def upstart_Start_def
  upstart_StopAndRemove_def os_MkdirAll_def os_OpenFile_def file_Write_def file_Close_def
  mgo_DialWithInfo_def session_Close_def replicaset_CurrentConfig_def replicaset_Initiate_def
  preallocLoop_step preallocLoop_done writeLoop_step writeLoop_stop
  mongoUpstartService_def makeServiceName_def oldMongoServiceName_def replicaSetName_def
  filepath_Join_def preallocFile_def maxFiles_def maxProcs_def

lemmas scenario_defs =
  quietEnv_def noFaults_def installFails_def dialFails_def angleQuote_def freshWorld_def
  settledWorld_def legacyWorld_def exampleService_def localDial_def

lemma length_zeroes: "length zeroes = 65536"
  by (simp add: zeroes_def)

lemma service_eval:
  "mongoUpstartService angleQuote ''juju-db-v2'' ''/var/lib/x'' ''/var/lib/x/db'' 37017
     = Inr exampleService"
  by (simp add: mongoUpstartService_def Let_def path_eval show_eval maxFiles_def maxProcs_def
        replicaSetName_def angleQuote_def exampleService_def del: path_Join.simps)

lemma full_run_ok:
  "fst (ensureMongoServer quietEnv ''10.0.0.1'' ''/var/lib/x'' 37017 (Some localDial) freshWorld) = Inr ()"
  by (simp add: run_defs path_eval show_eval mkdirAll.simps os_Mkdir_def emit_def
        scenario_defs Let_def length_zeroes
      del: path_Join.simps)

lemma install_fails_run:
  "fst (ensureMongoServer \<lparr>faults = installFails, ShQuote = angleQuote\<rparr>
          ''10.0.0.1'' ''/var/lib/x'' 37017 (Some localDial) freshWorld)
     = Inl (InstallError ''juju-db-v2'' (External ''no space left on device''))"
  "(OpInstall exampleService, Failed (External ''no space left on device''))
     \<in> set (new_events freshWorld
              (snd (ensureMongoServer \<lparr>faults = installFails, ShQuote = angleQuote\<rparr>
                      ''10.0.0.1'' ''/var/lib/x'' 37017 (Some localDial) freshWorld)))"
  by (simp_all add: run_defs path_eval show_eval mkdirAll.simps os_Mkdir_def emit_def
        scenario_defs Let_def length_zeroes new_events_def
      del: path_Join.simps)

lemma dial_fails_run:
  "(OpDialWithInfo localDial, Failed (External ''connection refused''))
     \<in> set (new_events settledWorld
              (snd (ensureMongoServer \<lparr>faults = dialFails, ShQuote = angleQuote\<rparr>
                      ''10.0.0.1'' ''/var/lib/x'' 37017 (Some localDial) settledWorld)))"
  by (simp add: run_defs path_eval show_eval emit_def
        scenario_defs Let_def new_events_def
      del: path_Join.simps)

lemma filter_none: "(\<forall>ev\<in>set t. \<not> P (fst ev)) \<Longrightarrow> filter P (ops t) = []"
  by (simp add: ops_def filter_empty_conv)

lemma ensureMongoServer_pass:
  assumes "ensureMongoServer env address dataDir port info w = (r, w')"
  shows "\<exists>service.
      mongoUpstartService (ShQuote env) (makeServiceName mongoScriptVersion) dataDir
          (filepath_Join [dataDir, ''db'']) port = Inr service
    \<and> Name service = makeServiceName mongoScriptVersion
    \<and> trace w' = trace w @ new_events w w'
    \<and> passFacts mongoScriptVersion service w r w' (new_events w w')"
proof -
  from assms have "ensureMongoServerAt env mongoScriptVersion address dataDir port info w = (r, w')"
    by (simp add: ensureMongoServer_def)
  from ensureMongoServerAt_pass [OF this] obtain service t
    where "mongoUpstartService (ShQuote env) (makeServiceName mongoScriptVersion) dataDir
          (filepath_Join [dataDir, ''db'']) port = Inr service"
      and "Name service = makeServiceName mongoScriptVersion"
      and "trace w' = trace w @ t"
      and "new_events w w' = t"
      and "passFacts mongoScriptVersion service w r w' t"
    by blast
  then show ?thesis by auto
qed

subsection \<open>What a pass does and what it leaves alone\<close>

text \<open>
  Claim C3. \<^verbatim>\<open>ensureMongoServer\<close> stops at the first failure: in every execution in which
  the supervisor's install fails, the error returned is the wrapped install error and
  no start and no initiate is attempted; in every execution in which dialing the
  database fails, the error returned is the wrapped dial error and no configuration
  query and no initiate is attempted.
\<close>

theorem ensureMongoServer_short_circuits:
  assumes "ensureMongoServer env address dataDir port info w = (r, w')"
  shows "(\<forall>c e. (OpInstall c, Failed e) \<in> set (new_events w w') \<longrightarrow>
            r = Inl (InstallError (makeServiceName mongoScriptVersion) e)
            \<and> filter (\<lambda>a. isStart a \<or> isInitiate a) (ops (new_events w w')) = [])
       \<and> (\<forall>d e. (OpDialWithInfo d, Failed e) \<in> set (new_events w w') \<longrightarrow>
            r = Inl (ReplicasetError (DialError e))
            \<and> filter (\<lambda>a. isQuery a \<or> isInitiate a) (ops (new_events w w')) = [])"
proof -
  from ensureMongoServer_pass [OF assms] obtain service
    where P: "passFacts mongoScriptVersion service w r w' (new_events w w')"
    by blast
  from P have 1: "\<forall>c e. (OpInstall c, Failed e) \<in> set (new_events w w')
          \<longrightarrow> r = Inl (InstallError (makeServiceName mongoScriptVersion) e)
              \<and> (\<forall>ev\<in>set (new_events w w'). \<not> isStart (fst ev) \<and> \<not> isInitiate (fst ev))"
    and 2: "\<forall>d e. (OpDialWithInfo d, Failed e) \<in> set (new_events w w')
          \<longrightarrow> r = Inl (ReplicasetError (DialError e))
              \<and> (\<forall>ev\<in>set (new_events w w'). \<not> isQuery (fst ev) \<and> \<not> isInitiate (fst ev))"
    unfolding passFacts_def by blast+
  show ?thesis
  proof (intro conjI allI impI)
    fix c e assume a: "(OpInstall c, Failed e) \<in> set (new_events w w')"
    with 1 show "r = Inl (InstallError (makeServiceName mongoScriptVersion) e)" by blast
    from 1 a have "\<forall>ev\<in>set (new_events w w'). \<not> (isStart (fst ev) \<or> isInitiate (fst ev))" by blast
    then show "filter (\<lambda>a. isStart a \<or> isInitiate a) (ops (new_events w w')) = []"
      by (rule filter_none)
  next
    fix d e assume a: "(OpDialWithInfo d, Failed e) \<in> set (new_events w w')"
    with 2 show "r = Inl (ReplicasetError (DialError e))" by blast
    from 2 a have "\<forall>ev\<in>set (new_events w w'). \<not> (isQuery (fst ev) \<or> isInitiate (fst ev))" by blast
    then show "filter (\<lambda>a. isQuery a \<or> isInitiate a) (ops (new_events w w')) = []"
      by (rule filter_none)
  qed
qed

theorem ensureMongoServer_short_circuits_witness:
  "fst (ensureMongoServer \<lparr>faults = installFails, ShQuote = angleQuote\<rparr>
          ''10.0.0.1'' ''/var/lib/x'' 37017 (Some localDial) freshWorld)
     = Inl (InstallError ''juju-db-v2'' (External ''no space left on device''))
   \<and> filter (\<lambda>a. isStart a \<or> isInitiate a)
        (ops (new_events freshWorld
                (snd (ensureMongoServer \<lparr>faults = installFails, ShQuote = angleQuote\<rparr>
                        ''10.0.0.1'' ''/var/lib/x'' 37017 (Some localDial) freshWorld)))) = []
   \<and> fst (ensureMongoServer \<lparr>faults = dialFails, ShQuote = angleQuote\<rparr>
          ''10.0.0.1'' ''/var/lib/x'' 37017 (Some localDial) settledWorld)
     = Inl (ReplicasetError (DialError (External ''connection refused'')))
   \<and> filter (\<lambda>a. isQuery a \<or> isInitiate a)
        (ops (new_events settledWorld
                (snd (ensureMongoServer \<lparr>faults = dialFails, ShQuote = angleQuote\<rparr>
                        ''10.0.0.1'' ''/var/lib/x'' 37017 (Some localDial) settledWorld)))) = []"
proof -
  let ?runA = "ensureMongoServer \<lparr>faults = installFails, ShQuote = angleQuote\<rparr>
          ''10.0.0.1'' ''/var/lib/x'' 37017 (Some localDial) freshWorld"
  let ?runB = "ensureMongoServer \<lparr>faults = dialFails, ShQuote = angleQuote\<rparr>
          ''10.0.0.1'' ''/var/lib/x'' 37017 (Some localDial) settledWorld"
  have A: "?runA = (fst ?runA, snd ?runA)" and B: "?runB = (fst ?runB, snd ?runB)"
    by simp_all
  from ensureMongoServer_short_circuits [OF A] install_fails_run(2)
  have "fst ?runA = Inl (InstallError (makeServiceName mongoScriptVersion) (External ''no space left on device''))
    \<and> filter (\<lambda>a. isStart a \<or> isInitiate a) (ops (new_events freshWorld (snd ?runA))) = []"
    by blast
  moreover from ensureMongoServer_short_circuits [OF B] dial_fails_run
  have "fst ?runB = Inl (ReplicasetError (DialError (External ''connection refused'')))
    \<and> filter (\<lambda>a. isQuery a \<or> isInitiate a) (ops (new_events settledWorld (snd ?runB))) = []"
    by blast
  ultimately show ?thesis
    by (simp add: makeServiceName_def mongoScriptVersion_def show_eval)
qed

text \<open>
  Claim C7. Within \<^verbatim>\<open>ensureMongoServer\<close> the journal preallocator runs only when the
  current service definition is not installed: in every execution in which the
  definition with the current name is already installed (in the world the call starts
  in, or as the supervisor answers when asked), no journal directory is created, no
  preallocation file is opened or written, and the filesystem is left as it was.
\<close>

theorem ensureMongoServer_journal_only_before_install:
  assumes "ensureMongoServer env address dataDir port info w = (r, w')"
  shows "(services w (makeServiceName mongoScriptVersion) \<noteq> None
          \<or> (OpInstalled (makeServiceName mongoScriptVersion), Answered True) \<in> set (new_events w w'))
       \<longrightarrow> filter isJournalOp (ops (new_events w w')) = [] \<and> files w' = files w"
proof
  let ?name = "makeServiceName mongoScriptVersion"
  assume a: "services w ?name \<noteq> None \<or> (OpInstalled ?name, Answered True) \<in> set (new_events w w')"
  from ensureMongoServer_pass [OF assms] obtain service
    where P: "passFacts mongoScriptVersion service w r w' (new_events w w')"
    by blast
  from P have q: "\<forall>b. (OpInstalled ?name, Answered b) \<in> set (new_events w w')
          \<longrightarrow> b = (services w ?name \<noteq> None)"
    and i: "services w ?name \<noteq> None
          \<longrightarrow> (\<forall>ev\<in>set (new_events w w'). \<not> isJournalOp (fst ev) \<and> \<not> isInstall (fst ev))
              \<and> files w' = files w"
    unfolding passFacts_def by blast+
  from a q have "services w ?name \<noteq> None" by blast
  with i have "\<forall>ev\<in>set (new_events w w'). \<not> isJournalOp (fst ev)" and f: "files w' = files w"
    by blast+
  then show "filter isJournalOp (ops (new_events w w')) = [] \<and> files w' = files w"
    by (simp add: filter_none)
qed

theorem ensureMongoServer_journal_only_before_install_witness:
  "services settledWorld ''juju-db-v2'' \<noteq> None
   \<and> filter isJournalOp
        (ops (new_events settledWorld
                (snd (ensureMongoServer quietEnv ''10.0.0.1'' ''/var/lib/x'' 37017 (Some localDial)
                        settledWorld)))) = []
   \<and> files (snd (ensureMongoServer quietEnv ''10.0.0.1'' ''/var/lib/x'' 37017 (Some localDial)
                    settledWorld))
       = files settledWorld"
proof -
  let ?run = "ensureMongoServer quietEnv ''10.0.0.1'' ''/var/lib/x'' 37017 (Some localDial) settledWorld"
  have R: "?run = (fst ?run, snd ?run)" by simp
  have n: "makeServiceName mongoScriptVersion = ''juju-db-v2''"
    by (simp add: makeServiceName_def mongoScriptVersion_def show_eval)
  have i: "services settledWorld ''juju-db-v2'' \<noteq> None"
    by (simp add: settledWorld_def)
  from ensureMongoServer_journal_only_before_install [OF R] i
  show ?thesis by (simp add: n)
qed

text \<open>
  Claim C2. When a call of \<^verbatim>\<open>ensureMongoServer\<close> has succeeded, the current service
  definition is installed, the service is running and the replica-set configuration is
  present; a second call made in the world the first one left, whatever its arguments
  and whatever fails during it, performs no install, no start and no initiate (and no
  journal preallocation either).
\<close>

theorem ensureMongoServer_second_call_does_nothing:
  assumes first: "ensureMongoServer env address dataDir port info w = (Inr (), w1)"
    and second: "ensureMongoServer env' address' dataDir' port' info' w1 = (r, w2)"
  shows "services w1 (makeServiceName mongoScriptVersion) \<noteq> None
       \<and> makeServiceName mongoScriptVersion \<in> running w1
       \<and> replicaSet w1 \<noteq> None
       \<and> filter (\<lambda>a. isInstall a \<or> isStart a \<or> isInitiate a) (ops (new_events w1 w2)) = []
       \<and> filter isJournalOp (ops (new_events w1 w2)) = []"
proof -
  let ?name = "makeServiceName mongoScriptVersion"
  from ensureMongoServer_pass [OF first] obtain service
    where P: "passFacts mongoScriptVersion service w (Inr ()) w1 (new_events w w1)"
    by blast
  then have st: "services w1 ?name \<noteq> None" "?name \<in> running w1" "replicaSet w1 \<noteq> None"
    unfolding passFacts_def by simp_all
  from ensureMongoServer_pass [OF second] obtain service'
    where Q: "passFacts mongoScriptVersion service' w1 r w2 (new_events w1 w2)"
    by blast
  from Q st have "\<forall>ev\<in>set (new_events w1 w2). \<not> isJournalOp (fst ev) \<and> \<not> isInstall (fst ev)"
    and "\<forall>ev\<in>set (new_events w1 w2). \<not> isStart (fst ev)"
    and "\<forall>ev\<in>set (new_events w1 w2). \<not> isInitiate (fst ev)"
    unfolding passFacts_def by blast+
  then have "\<forall>ev\<in>set (new_events w1 w2). \<not> (isInstall (fst ev) \<or> isStart (fst ev) \<or> isInitiate (fst ev))"
    and "\<forall>ev\<in>set (new_events w1 w2). \<not> isJournalOp (fst ev)"
    by blast+
  then have "filter (\<lambda>a. isInstall a \<or> isStart a \<or> isInitiate a) (ops (new_events w1 w2)) = []"
    and "filter isJournalOp (ops (new_events w1 w2)) = []"
    by (simp_all add: filter_none)
  with st show ?thesis by simp
qed

theorem ensureMongoServer_second_call_does_nothing_witness:
  "fst (ensureMongoServer quietEnv ''10.0.0.1'' ''/var/lib/x'' 37017 (Some localDial) freshWorld) = Inr ()
   \<and> filter (\<lambda>a. isInstall a \<or> isStart a \<or> isInitiate a)
        (ops (new_events
                (snd (ensureMongoServer quietEnv ''10.0.0.1'' ''/var/lib/x'' 37017 (Some localDial)
                        freshWorld))
                (snd (ensureMongoServer quietEnv ''10.0.0.1'' ''/var/lib/x'' 37017 (Some localDial)
                        (snd (ensureMongoServer quietEnv ''10.0.0.1'' ''/var/lib/x'' 37017
                                (Some localDial) freshWorld)))))) = []"
proof -
  let ?run1 = "ensureMongoServer quietEnv ''10.0.0.1'' ''/var/lib/x'' 37017 (Some localDial) freshWorld"
  let ?run2 = "ensureMongoServer quietEnv ''10.0.0.1'' ''/var/lib/x'' 37017 (Some localDial) (snd ?run1)"
  have 1: "?run1 = (Inr (), snd ?run1)"
    using full_run_ok by (simp add: prod_eq_iff)
  have 2: "?run2 = (fst ?run2, snd ?run2)" by simp
  from ensureMongoServer_second_call_does_nothing [OF 1 2] full_run_ok
  show ?thesis by simp
qed

lemma legacy_only_below:
  assumes "dom (services w) \<subseteq> set (legacyNames N) \<union> {makeServiceName N}" and "v < N" and "v < 2"
  shows "services w (makeServiceName v) = None"
proof (rule ccontr)
  assume "services w (makeServiceName v) \<noteq> None"
  then have "makeServiceName v \<in> dom (services w)" by (simp add: dom_def)
  with assms(1) have "makeServiceName v \<in> set (legacyNames N) \<union> {makeServiceName N}" by blast
  then consider "makeServiceName v = oldMongoServiceName"
    | u where "2 \<le> u" "makeServiceName v = makeServiceName u"
    | "makeServiceName v = makeServiceName N"
    by (auto simp: legacyNames_def)
  then show False
  proof cases
    case 1 then show False by (simp add: makeServiceName_not_old)
  next
    case 2 then show False using assms(3) by (auto dest: makeServiceName_inj)
  next
    case 3 then show False using assms(2) by (auto dest: makeServiceName_inj)
  qed
qed

text \<open>
  Claim C4. For any current version \<open>N \<ge> 2\<close> and any service definitions installed
  before, after a successful convergence pass the definition named \<^verbatim>\<open>juju-db\<close> is absent
  and so is the definition of every version from 2, where the versioned names begin, up
  to \<open>N - 1\<close>; no name of a version below \<open>N\<close> that was absent before is present after, so that
  where only such definitions and the current one were installed before, no definition
  named for any version below \<open>N\<close> remains.
  The same holds of \<^verbatim>\<open>removeOldMongoServices\<close> alone. For a current version of at most 2,
  the removal of \<^verbatim>\<open>juju-db\<close> is the only removal attempted.
\<close>

theorem legacy_cleanup_complete:
  "(2 \<le> N \<and> ensureMongoServerAt env N address dataDir port info w = (Inr (), w') \<longrightarrow>
      services w' oldMongoServiceName = None
      \<and> (\<forall>v. 2 \<le> v \<and> v < N \<longrightarrow> services w' (makeServiceName v) = None)
      \<and> (\<forall>v. v < N \<and> services w (makeServiceName v) = None
             \<longrightarrow> services w' (makeServiceName v) = None)
      \<and> (dom (services w) \<subseteq> set (legacyNames N) \<union> {makeServiceName N}
             \<longrightarrow> (\<forall>v. v < N \<longrightarrow> services w' (makeServiceName v) = None)))
   \<and> (removeOldMongoServices env N w = (Inr (), w1) \<longrightarrow>
      services w1 oldMongoServiceName = None
      \<and> (\<forall>v. 2 \<le> v \<and> v < N \<longrightarrow> services w1 (makeServiceName v) = None))
   \<and> (N \<le> 2 \<and> removeOldMongoServices env N w = (r2, w2) \<longrightarrow>
      ops (new_events w w2) = [OpStopAndRemove oldMongoServiceName])"
proof (intro conjI impI)
  assume a: "2 \<le> N \<and> ensureMongoServerAt env N address dataDir port info w = (Inr (), w')"
  then have run: "ensureMongoServerAt env N address dataDir port info w = (Inr (), w')" by simp
  from ensureMongoServerAt_pass [OF run] obtain service t
    where P: "passFacts N service w (Inr ()) w' t"
    by blast
  then have old: "services w' oldMongoServiceName = None"
    and leg: "\<forall>v. 2 \<le> v \<and> v < N \<longrightarrow> services w' (makeServiceName v) = None"
    and mono: "\<forall>n. services w n = None \<and> n \<noteq> makeServiceName N \<longrightarrow> services w' n = None"
    unfolding passFacts_def by simp_all
  have keep: "services w' (makeServiceName v) = None"
    if v: "v < N" "services w (makeServiceName v) = None" for v
  proof -
    from v have "makeServiceName v \<noteq> makeServiceName N" by (auto dest: makeServiceName_inj)
    with mono v show ?thesis by simp
  qed
  show "services w' oldMongoServiceName = None" by (rule old)
  show "\<forall>v. 2 \<le> v \<and> v < N \<longrightarrow> services w' (makeServiceName v) = None" by (rule leg)
  show "\<forall>v. v < N \<and> services w (makeServiceName v) = None \<longrightarrow> services w' (makeServiceName v) = None"
    using keep by simp
  show "\<forall>v. v < N \<longrightarrow> services w' (makeServiceName v) = None"
    if d: "dom (services w) \<subseteq> set (legacyNames N) \<union> {makeServiceName N}"
  proof (intro allI impI)
    fix v assume v: "v < N"
    show "services w' (makeServiceName v) = None"
    proof (cases "2 \<le> v")
      case True with leg v show ?thesis by simp
    next
      case False
      then have "services w (makeServiceName v) = None"
        using legacy_only_below [OF d v] by simp
      with v show ?thesis by (rule keep)
    qed
  qed
next
  assume a: "removeOldMongoServices env N w = (Inr (), w1)"
  from removal_block [OF a]
  show "services w1 oldMongoServiceName = None" 
    and "\<forall>v. 2 \<le> v \<and> v < N \<longrightarrow> services w1 (makeServiceName v) = None"
    by blast+
next
  assume a: "N \<le> 2 \<and> removeOldMongoServices env N w = (r2, w2)"
  then have run: "removeOldMongoServices env N w = (r2, w2)" and N: "N \<le> 2" by simp_all
  from removal_block [OF run] N obtain t where t: "trace w2 = trace w @ t"
    and only: "ops t = [OpStopAndRemove oldMongoServiceName]"
    by blast
  from t have "new_events w w2 = t" by (rule new_events_append)
  with only show "ops (new_events w w2) = [OpStopAndRemove oldMongoServiceName]" by simp
qed

theorem legacy_cleanup_complete_witness:
  "fst (ensureMongoServerAt quietEnv 4 ''10.0.0.1'' ''/var/lib/x'' 37017 (Some localDial) legacyWorld)
     = Inr ()
   \<and> dom (services legacyWorld) \<subseteq> set (legacyNames 4) \<union> {makeServiceName 4}
   \<and> services (snd (ensureMongoServerAt quietEnv 4 ''10.0.0.1'' ''/var/lib/x'' 37017
                       (Some localDial) legacyWorld)) ''juju-db'' = None
   \<and> services (snd (ensureMongoServerAt quietEnv 4 ''10.0.0.1'' ''/var/lib/x'' 37017
                       (Some localDial) legacyWorld)) ''juju-db-v1'' = None
   \<and> services (snd (ensureMongoServerAt quietEnv 4 ''10.0.0.1'' ''/var/lib/x'' 37017
                       (Some localDial) legacyWorld)) ''juju-db-v2'' = None
   \<and> services (snd (ensureMongoServerAt quietEnv 4 ''10.0.0.1'' ''/var/lib/x'' 37017
                       (Some localDial) legacyWorld)) ''juju-db-v3'' = None
   \<and> ops (new_events freshWorld (snd (removeOldMongoServices quietEnv 2 freshWorld)))
       = [OpStopAndRemove ''juju-db'']"
proof -
  let ?run = "ensureMongoServerAt quietEnv 4 ''10.0.0.1'' ''/var/lib/x'' 37017 (Some localDial) legacyWorld"
  have ok: "fst ?run = Inr ()"
    by (simp add: run_defs path_eval show_eval emit_def scenario_defs Let_def
          showInt_def showNat_lt10 digit_def
        del: path_Join.simps)
  then have R: "?run = (Inr (), snd ?run)" by (simp add: prod_eq_iff)
  let ?rm = "removeOldMongoServices quietEnv 2 freshWorld"
  have M: "?rm = (fst ?rm, snd ?rm)" by simp
  have n: "makeServiceName 1 = ''juju-db-v1''" "makeServiceName 2 = ''juju-db-v2''"
    "makeServiceName 3 = ''juju-db-v3''" "makeServiceName 4 = ''juju-db-v4''"
    by (simp_all add: makeServiceName_def showInt_def showNat_lt10 digit_def)
  have up: "[2..3::int] = [2, 3]" by (simp add: upto_rec1)
  have d: "dom (services legacyWorld) \<subseteq> set (legacyNames 4) \<union> {makeServiceName 4}"
    by (simp add: legacyWorld_def freshWorld_def legacyNames_def n up oldMongoServiceName_def)
  from legacy_cleanup_complete [where N = 4 and env = quietEnv and address = "''10.0.0.1''"
         and dataDir = "''/var/lib/x''" and port = 37017 and info = "Some localDial"
         and w = legacyWorld and w' = "snd ?run"] R d
  have a: "services (snd ?run) oldMongoServiceName = None
      \<and> (\<forall>v. v < 4 \<longrightarrow> services (snd ?run) (makeServiceName v) = None)"
    by simp
  then have "services (snd ?run) (makeServiceName 1) = None"
    "services (snd ?run) (makeServiceName 2) = None"
    "services (snd ?run) (makeServiceName 3) = None"
    by simp_all
  moreover from legacy_cleanup_complete [where N = 2 and env = quietEnv and w = freshWorld
         and ?r2.0 = "fst ?rm" and ?w2.0 = "snd ?rm"] M
  have "ops (new_events freshWorld (snd ?rm)) = [OpStopAndRemove oldMongoServiceName]"
    by simp
  ultimately show ?thesis
    using ok a d by (simp add: n oldMongoServiceName_def)
qed

text \<open>
  Claim C10. The command line that \<^verbatim>\<open>mongoUpstartService\<close> builds begins with the fixed
  path \<^verbatim>\<open>/usr/bin/mongod\<close>, and never with the path of the juju-bundled mongod.
  \<^verbatim>\<open>ensureMongoServer\<close> never consults \<^verbatim>\<open>MongodPath\<close> (it makes no \<^verbatim>\<open>os.Stat\<close> and no
  \<^verbatim>\<open>exec.LookPath\<close> call), and every definition it installs has such a command line.
\<close>

theorem mongod_path_is_fixed:
  "(\<exists>c. mongoUpstartService shQuote name dataDir dbDir port = Inr c
        \<and> prefix ''/usr/bin/mongod'' (Cmd c) \<and> \<not> prefix JujuMongodPath (Cmd c))
   \<and> (ensureMongoServer env address dataDir port info w = (r, w') \<longrightarrow>
        filter isResolution (ops (new_events w w')) = []
        \<and> (\<forall>c out. (OpInstall c, out) \<in> set (new_events w w')
              \<longrightarrow> prefix ''/usr/bin/mongod'' (Cmd c) \<and> \<not> prefix JujuMongodPath (Cmd c)))"
proof (intro conjI impI)
  show "\<exists>c. mongoUpstartService shQuote name dataDir dbDir port = Inr c
        \<and> prefix ''/usr/bin/mongod'' (Cmd c) \<and> \<not> prefix JujuMongodPath (Cmd c)"
    by (simp add: mongoUpstartService_def Let_def JujuMongodPath_def del: path_Join.simps)
next
  assume run: "ensureMongoServer env address dataDir port info w = (r, w')"
  from ensureMongoServer_pass [OF run] obtain service
    where svc: "mongoUpstartService (ShQuote env) (makeServiceName mongoScriptVersion) dataDir
          (filepath_Join [dataDir, ''db'']) port = Inr service"
      and P: "passFacts mongoScriptVersion service w r w' (new_events w w')"
    by blast
  let ?N = "mongoScriptVersion"
  from P have kinds: "\<forall>ev\<in>set (new_events w w'). isRemoval (fst ev) \<or> fst ev = OpInstalled (makeServiceName ?N)
           \<or> isJournalOp (fst ev) \<or> fst ev = OpInstall service
           \<or> fst ev = OpRunning (makeServiceName ?N) \<or> fst ev = OpStart (makeServiceName ?N)
           \<or> isDial (fst ev) \<or> isQuery (fst ev) \<or> isInitiate (fst ev)
           \<or> fst ev = OpSessionClose"
    unfolding passFacts_def by blast
  have "\<forall>ev\<in>set (new_events w w'). \<not> isResolution (fst ev)"
    using kinds by (fastforce simp add: op_kinds)
  then show "filter isResolution (ops (new_events w w')) = []" by (rule filter_none)
  have cmd: "prefix ''/usr/bin/mongod'' (Cmd service) \<and> \<not> prefix JujuMongodPath (Cmd service)"
    using svc by (auto simp add: mongoUpstartService_def Let_def JujuMongodPath_def simp del: path_Join.simps)
  show "\<forall>c out. (OpInstall c, out) \<in> set (new_events w w')
              \<longrightarrow> prefix ''/usr/bin/mongod'' (Cmd c) \<and> \<not> prefix JujuMongodPath (Cmd c)"
  proof (intro allI impI)
    fix c out assume "(OpInstall c, out) \<in> set (new_events w w')"
    with kinds have "c = service" by (fastforce simp add: op_kinds)
    with cmd show "prefix ''/usr/bin/mongod'' (Cmd c) \<and> \<not> prefix JujuMongodPath (Cmd c)" by simp
  qed
qed

theorem mongod_path_is_fixed_witness:
  "fst (MongodPath quietEnv (settledWorld\<lparr>files := (files settledWorld)(JujuMongodPath \<mapsto> File 493 [])\<rparr>))
     = Inr ''/usr/lib/juju/bin/mongod''
   \<and> prefix ''/usr/bin/mongod''
        (Cmd (projr (mongoUpstartService angleQuote ''juju-db-v2'' ''/var/lib/x'' ''/var/lib/x/db'' 37017)))
   \<and> filter isResolution
        (ops (new_events (settledWorld\<lparr>files := (files settledWorld)(JujuMongodPath \<mapsto> File 493 [])\<rparr>)
                (snd (ensureMongoServer quietEnv ''10.0.0.1'' ''/var/lib/x'' 37017 (Some localDial)
                        (settledWorld\<lparr>files := (files settledWorld)(JujuMongodPath \<mapsto> File 493 [])\<rparr>)))))
       = []"
proof -
  let ?w = "settledWorld\<lparr>files := (files settledWorld)(JujuMongodPath \<mapsto> File 493 [])\<rparr>"
  let ?run = "ensureMongoServer quietEnv ''10.0.0.1'' ''/var/lib/x'' 37017 (Some localDial) ?w"
  have R: "?run = (fst ?run, snd ?run)" by simp
  have m: "fst (MongodPath quietEnv ?w) = Inr ''/usr/lib/juju/bin/mongod''"
    by (simp add: MongodPath_def os_Stat_def emit_def scenario_defs JujuMongodPath_def)
  from mongod_path_is_fixed [where shQuote = angleQuote and name = "''juju-db-v2''"
         and dataDir = "''/var/lib/x''" and dbDir = "''/var/lib/x/db''" and port = 37017
         and env = quietEnv and address = "''10.0.0.1''" and info = "Some localDial"
         and w = ?w and r = "fst ?run" and w' = "snd ?run"] R m
  show ?thesis by auto
qed

subsection \<open>What the journal preallocator leaves on disk\<close>

lemma owner_only: "(448 AND NOT u) AND 63 = (0 :: 32 word)"
proof -
  have "(448 AND NOT u) AND 63 = (448 AND 63) AND NOT u"
    by (simp add: ac_simps)
  also have "(448 :: 32 word) AND 63 = 0" by simp
  finally show ?thesis by simp
qed

lemma umask_keeps_owner: "u AND 448 = 0 \<Longrightarrow> 448 AND NOT u = (448 :: 32 word)"
proof -
  assume a: "u AND 448 = 0"
  have "448 AND NOT u = 448 AND NOT (u AND 448)"
    by (rule bit_eqI) (auto simp add: bit_simps)
  with a show ?thesis by simp
qed

lemma prealloc_eval:
  "preallocFile ''/var/lib/x/db/journal'' 0 = ''/var/lib/x/db/journal/prealloc.0''"
  "preallocFile ''/var/lib/x/db/journal'' 1 = ''/var/lib/x/db/journal/prealloc.1''"
  "preallocFile ''/var/lib/x/db/journal'' 2 = ''/var/lib/x/db/journal/prealloc.2''"
  by (simp_all add: preallocFile_def filepath_Join_def show_eval path_eval del: path_Join.simps)

lemma journal_run_ok:
  "fst (makeJournalDirs quietEnv ''/var/lib/x/db'' freshWorld) = Inr ()"
  "fst (makeJournalDirs quietEnv ''/var/lib/x/db'' usedWorld) = Inr ()"
  "files (snd (makeJournalDirs quietEnv ''/var/lib/x/db'' usedWorld)) ''/var/lib/x/db/journal''
     = Some (Dir 493)"
  by (simp_all add: run_defs path_eval show_eval mkdirAll.simps os_Mkdir_def emit_def
        scenario_defs usedWorld_def Let_def length_zeroes runDeferred_eq
      del: path_Join.simps)

text \<open>
  Claim C5, as the code has it. For every data directory on which \<^verbatim>\<open>makeJournalDirs\<close>
  succeeds, the \<^verbatim>\<open>journal\<close> subdirectory exists: created with mode 0700 less the process
  umask when it did not exist (so with no group or other permission, and with 0700
  itself under a umask that clears no owner bit), and left with the mode it had when
  it was a directory already. \<^verbatim>\<open>prealloc.0\<close>, \<^verbatim>\<open>prealloc.1\<close> and \<^verbatim>\<open>prealloc.2\<close> are three
  distinct files in it, each of exactly 1 MiB of zero bytes, written in 16 chunks of
  64 KiB; the calls made are exactly \<open>journalTrace\<close>, and no other file is created or
  changed (the other new entries are the directories \<^verbatim>\<open>os.MkdirAll\<close> made).
\<close>

theorem makeJournalDirs_result:
  assumes "makeJournalDirs env dir w = (Inr (), w')"
  shows "(\<exists>m. files w' (path_Join [dir, ''journal'']) = Some (Dir m))
    \<and> (files w (path_Join [dir, ''journal'']) = None
          \<longrightarrow> files w' (path_Join [dir, ''journal'']) = Some (Dir (448 AND NOT (umask w))))
    \<and> (448 AND NOT (umask w)) AND 63 = 0
    \<and> (umask w AND 448 = 0 \<longrightarrow> 448 AND NOT (umask w) = 448)
    \<and> (\<forall>m. files w (path_Join [dir, ''journal'']) = Some (Dir m)
          \<longrightarrow> files w' (path_Join [dir, ''journal'']) = Some (Dir m))
    \<and> distinct [preallocFile (path_Join [dir, ''journal'']) 0,
                 preallocFile (path_Join [dir, ''journal'']) 1,
                 preallocFile (path_Join [dir, ''journal'']) 2]
    \<and> (\<forall>k. 0 \<le> k \<and> k < 3 \<longrightarrow>
          preallocFile (path_Join [dir, ''journal'']) k
            = joinPrefix (path_Join [dir, ''journal'']) @ ''prealloc.'' @ showInt k
          \<and> (\<exists>m. files w' (preallocFile (path_Join [dir, ''journal'']) k)
                   = Some (File m (replicate (1024 * 1024) 0))))
    \<and> new_events w w' = journalTrace (path_Join [dir, ''journal''])
    \<and> length zeroes = 64 * 1024
    \<and> (\<forall>p. (\<forall>k. 0 \<le> k \<and> k < 3 \<longrightarrow> p \<noteq> preallocFile (path_Join [dir, ''journal'']) k)
          \<longrightarrow> files w' p = files w p
              \<or> (files w p = None \<and> files w' p = Some (Dir (448 AND NOT (umask w)))))"
proof -
  let ?j = "path_Join [dir, ''journal'']"
  note J = makeJournalDirs_summary [OF assms]
  from J obtain t where t: "trace w' = trace w @ t" and tok: "t = journalTrace ?j"
    by auto
  from J have dirs: "\<forall>p m. files w p = Some (Dir m) \<longrightarrow> files w' p = Some (Dir m)"
    and old: "\<forall>p. (\<forall>k. 0 \<le> k \<and> k < 3 \<longrightarrow> p \<noteq> preallocFile ?j k) \<and> files w p \<noteq> None
            \<longrightarrow> files w' p = files w p"
    and new: "\<forall>p. (\<forall>k. 0 \<le> k \<and> k < 3 \<longrightarrow> p \<noteq> preallocFile ?j k)
              \<and> files w p = None \<and> files w' p \<noteq> None
            \<longrightarrow> files w' p = Some (Dir (448 AND NOT (umask w)))"
    and jdir: "\<exists>m. files w' ?j = Some (Dir m)"
    and content: "\<forall>k. 0 \<le> k \<and> k < 3 \<longrightarrow>
                (\<exists>m. files w' (preallocFile ?j k) = Some (File m (replicate (1024 * 1024) 0)))"
    by simp_all
  have jne: "\<forall>k. 0 \<le> k \<and> k < 3 \<longrightarrow> ?j \<noteq> preallocFile ?j k"
  proof (intro allI impI notI)
    fix k assume k: "0 \<le> k \<and> k < 3" and eq: "?j = preallocFile ?j k"
    from content k obtain m where "files w' (preallocFile ?j k) = Some (File m (replicate (1024 * 1024) 0))"
      by blast
    with eq jdir show False by auto
  qed
  have created: "files w ?j = None \<longrightarrow> files w' ?j = Some (Dir (448 AND NOT (umask w)))"
    using new [rule_format, of ?j] jne jdir by auto
  have kept: "\<forall>m. files w ?j = Some (Dir m) \<longrightarrow> files w' ?j = Some (Dir m)"
    using dirs by simp
  have dist: "distinct [preallocFile ?j 0, preallocFile ?j 1, preallocFile ?j 2]"
    by (auto dest: preallocFile_inj)
  have names: "\<forall>k. 0 \<le> k \<and> k < 3 \<longrightarrow>
          preallocFile ?j k = joinPrefix ?j @ ''prealloc.'' @ showInt k
          \<and> (\<exists>m. files w' (preallocFile ?j k) = Some (File m (replicate (1024 * 1024) 0)))"
    using content preallocFile_eq by simp
  have ev: "new_events w w' = journalTrace ?j"
    using t tok by (simp add: new_events_def)
  have frame: "\<forall>p. (\<forall>k. 0 \<le> k \<and> k < 3 \<longrightarrow> p \<noteq> preallocFile ?j k)
          \<longrightarrow> files w' p = files w p
              \<or> (files w p = None \<and> files w' p = Some (Dir (448 AND NOT (umask w))))"
  proof (intro allI impI)
    fix p assume p: "\<forall>k. 0 \<le> k \<and> k < 3 \<longrightarrow> p \<noteq> preallocFile ?j k"
    show "files w' p = files w p
              \<or> (files w p = None \<and> files w' p = Some (Dir (448 AND NOT (umask w))))"
    proof (cases "files w p = None")
      case False
      with old p show ?thesis by simp
    next
      case True
      show ?thesis
      proof (cases "files w' p = None")
        case True
        with \<open>files w p = None\<close> show ?thesis by simp
      next
        case False
        with new [rule_format, of p] p True show ?thesis by simp
      qed
    qed
  qed
  have o1: "(448 AND NOT (umask w)) AND 63 = 0" by (rule owner_only)
  have o2: "umask w AND 448 = 0 \<longrightarrow> 448 AND NOT (umask w) = 448"
    using umask_keeps_owner by blast
  have lz: "length zeroes = 64 * 1024" by (simp add: length_zeroes)
  from jdir created o1 o2 kept dist names ev lz frame
  show ?thesis
    by (intro conjI)
qed

theorem makeJournalDirs_result_witness:
  "fst (makeJournalDirs quietEnv ''/var/lib/x/db'' freshWorld) = Inr ()
   \<and> files (snd (makeJournalDirs quietEnv ''/var/lib/x/db'' freshWorld)) ''/var/lib/x/db/journal''
       = Some (Dir 448)
   \<and> new_events freshWorld (snd (makeJournalDirs quietEnv ''/var/lib/x/db'' freshWorld))
       = journalTrace ''/var/lib/x/db/journal''
   \<and> distinct [''/var/lib/x/db/journal/prealloc.0'', ''/var/lib/x/db/journal/prealloc.1'',
                ''/var/lib/x/db/journal/prealloc.2'']"
proof -
  let ?run = "makeJournalDirs quietEnv ''/var/lib/x/db'' freshWorld"
  have R: "?run = (Inr (), snd ?run)"
    using journal_run_ok(1) by (simp add: prod_eq_iff)
  have none: "files freshWorld ''/var/lib/x/db/journal'' = None"
    by (simp add: freshWorld_def)
  have um: "448 AND NOT (umask freshWorld) = 448"
    by (simp add: freshWorld_def)
  from makeJournalDirs_result [OF R] none um journal_run_ok(1)
  show ?thesis
    by (simp add: path_eval prealloc_eval del: path_Join.simps)
qed

text \<open>
  The journal directory need not have mode 0700 afterwards: on a journal directory
  that exists with mode 0755, \<^verbatim>\<open>os.MkdirAll\<close> does nothing, \<^verbatim>\<open>makeJournalDirs\<close> succeeds and
  the mode is still 0755.
\<close>

theorem makeJournalDirs_existing_directory_counterexample:
  "fst (makeJournalDirs quietEnv ''/var/lib/x/db'' usedWorld) = Inr ()
   \<and> files (snd (makeJournalDirs quietEnv ''/var/lib/x/db'' usedWorld))
        (path_Join [''/var/lib/x/db'', ''journal''])
       = Some (Dir 493)
   \<and> Dir 493 \<noteq> Dir 448"
  using journal_run_ok(2,3) by (simp add: path_eval del: path_Join.simps)

subsection \<open>A first pass on a fresh node\<close>

lemma replicate_16: "replicate 16 x = [x, x, x, x, x, x, x, x, x, x, x, x, x, x, x, x]"
  by (simp add: eval_nat_numeral)

lemma zeroes_16:
  "zeroes @ zeroes @ zeroes @ zeroes @ zeroes @ zeroes @ zeroes @ zeroes @ zeroes @ zeroes
     @ zeroes @ zeroes @ zeroes @ zeroes @ zeroes @ zeroes = replicate (1024 * 1024) 0"
  by (simp add: zeroes_def replicate_add [symmetric] del: replicate_add)

lemma full_run_trace:
  "trace (snd (ensureMongoServer quietEnv ''10.0.0.1'' ''/var/lib/x'' 37017 (Some localDial) freshWorld))
     = (OpStopAndRemove ''juju-db'', Done)
       # (OpInstalled ''juju-db-v2'', Answered False)
       # journalTrace ''/var/lib/x/db/journal''
       @ [(OpInstall exampleService, Done),
          (OpRunning ''juju-db-v2'', Answered False),
          (OpStart ''juju-db-v2'', Done),
          (OpDialWithInfo localDial, Done),
          (OpCurrentConfig, Failed ErrNotFound),
          (OpInitiate ''10.0.0.1:37017'' ''juju'', Done),
          (OpSessionClose, Done)]"
  by (simp add: run_defs path_eval show_eval mkdirAll.simps os_Mkdir_def emit_def
        scenario_defs Let_def length_zeroes runDeferred_eq journalTrace_def replicate_16
      del: path_Join.simps)

lemma full_run_state:
  "services (snd (ensureMongoServer quietEnv ''10.0.0.1'' ''/var/lib/x'' 37017 (Some localDial) freshWorld))
     = [''juju-db-v2'' \<mapsto> exampleService]"
  "running (snd (ensureMongoServer quietEnv ''10.0.0.1'' ''/var/lib/x'' 37017 (Some localDial) freshWorld))
     = {''juju-db-v2''}"
  "replicaSet (snd (ensureMongoServer quietEnv ''10.0.0.1'' ''/var/lib/x'' 37017 (Some localDial) freshWorld))
     = Some \<lparr>rsName = ''juju'', rsMembers = [''10.0.0.1:37017'']\<rparr>"
  by (simp_all add: run_defs path_eval show_eval mkdirAll.simps os_Mkdir_def emit_def
        scenario_defs Let_def length_zeroes runDeferred_eq
      del: path_Join.simps)

lemma full_run_files:
  "files (snd (ensureMongoServer quietEnv ''10.0.0.1'' ''/var/lib/x'' 37017 (Some localDial) freshWorld))
     = (files freshWorld)
         (''/var/lib/x/db'' \<mapsto> Dir 448,
          ''/var/lib/x/db/journal'' \<mapsto> Dir 448,
          ''/var/lib/x/db/journal/prealloc.0'' \<mapsto> File 448 (replicate (1024 * 1024) 0),
          ''/var/lib/x/db/journal/prealloc.1'' \<mapsto> File 448 (replicate (1024 * 1024) 0),
          ''/var/lib/x/db/journal/prealloc.2'' \<mapsto> File 448 (replicate (1024 * 1024) 0))"
  by (simp add: run_defs path_eval show_eval mkdirAll.simps os_Mkdir_def emit_def
        scenario_defs Let_def length_zeroes runDeferred_eq zeroes_16
      del: path_Join.simps)

lemma exampleService_flags:
  "Name exampleService = ''juju-db-v2''"
  "sublist '' --port 37017'' (Cmd exampleService)"
  "sublist '' --replSet juju'' (Cmd exampleService)"
proof -
  show "Name exampleService = ''juju-db-v2''" by (simp add: exampleService_def)
  show "sublist '' --port 37017'' (Cmd exampleService)"
    by (rule sublist_mid [where ps = "''/usr/bin/mongod --auth --dbpath=/var/lib/x/db --sslOnNormalPorts --sslPEMKeyFile </var/lib/x/server.pem> --sslPEMKeyPassword ignored --bind_ip 0.0.0.0''"])
       (simp add: exampleService_def)
  show "sublist '' --replSet juju'' (Cmd exampleService)"
    by (rule sublist_mid [where ss = "[]" and ps = "''/usr/bin/mongod --auth --dbpath=/var/lib/x/db --sslOnNormalPorts --sslPEMKeyFile </var/lib/x/server.pem> --sslPEMKeyPassword ignored --bind_ip 0.0.0.0 --port 37017 --noprealloc --syslog --smallfiles''"])
       (simp add: exampleService_def)
qed

lemma full_run_counts:
  "filter isRemoval (ops (trace (snd (ensureMongoServer quietEnv ''10.0.0.1'' ''/var/lib/x'' 37017
                                        (Some localDial) freshWorld))))
     = [OpStopAndRemove ''juju-db'']"
  "filter isInstall (ops (trace (snd (ensureMongoServer quietEnv ''10.0.0.1'' ''/var/lib/x'' 37017
                                        (Some localDial) freshWorld))))
     = [OpInstall exampleService]"
  "filter isStart (ops (trace (snd (ensureMongoServer quietEnv ''10.0.0.1'' ''/var/lib/x'' 37017
                                      (Some localDial) freshWorld))))
     = [OpStart ''juju-db-v2'']"
  "filter isQuery (ops (trace (snd (ensureMongoServer quietEnv ''10.0.0.1'' ''/var/lib/x'' 37017
                                      (Some localDial) freshWorld))))
     = [OpCurrentConfig]"
  "filter isInitiate (ops (trace (snd (ensureMongoServer quietEnv ''10.0.0.1'' ''/var/lib/x'' 37017
                                         (Some localDial) freshWorld))))
     = [OpInitiate ''10.0.0.1:37017'' ''juju'']"
  unfolding full_run_trace
  by (simp_all add: ops_def journalTrace_def)

text \<open>
  Claim C8, as the code has it. On the request with address \<^verbatim>\<open>10.0.0.1\<close>, data directory
  \<^verbatim>\<open>/var/lib/x\<close> and port 37017, on an empty data directory, at version 2 and with no
  service installed, convergence succeeds and makes exactly these calls: the
  unconditional stop-and-remove of \<^verbatim>\<open>juju-db\<close> (which removes nothing, none being
  installed) and no removal of a versioned definition; the installed check; the
  journal calls, which create three preallocation files of 1 MiB; one install and one
  start of the definition \<^verbatim>\<open>juju-db-v2\<close>, whose command line contains \<^verbatim>\<open>--port 37017\<close> and
  \<^verbatim>\<open>--replSet juju\<close>; one dial, one configuration query answered not-found and one
  initiate with seed \<^verbatim>\<open>10.0.0.1:37017\<close>.
\<close>

theorem end_to_end_scenario:
  "fst (ensureMongoServer quietEnv ''10.0.0.1'' ''/var/lib/x'' 37017 (Some localDial) freshWorld)
     = Inr ()
   \<and> trace (snd (ensureMongoServer quietEnv ''10.0.0.1'' ''/var/lib/x'' 37017 (Some localDial) freshWorld))
     = (OpStopAndRemove ''juju-db'', Done)
       # (OpInstalled ''juju-db-v2'', Answered False)
       # journalTrace ''/var/lib/x/db/journal''
       @ [(OpInstall exampleService, Done),
          (OpRunning ''juju-db-v2'', Answered False),
          (OpStart ''juju-db-v2'', Done),
          (OpDialWithInfo localDial, Done),
          (OpCurrentConfig, Failed ErrNotFound),
          (OpInitiate ''10.0.0.1:37017'' ''juju'', Done),
          (OpSessionClose, Done)]
   \<and> filter isRemoval (ops (trace (snd (ensureMongoServer quietEnv ''10.0.0.1'' ''/var/lib/x'' 37017
                                          (Some localDial) freshWorld))))
     = [OpStopAndRemove ''juju-db'']
   \<and> services freshWorld = Map.empty
   \<and> services (snd (ensureMongoServer quietEnv ''10.0.0.1'' ''/var/lib/x'' 37017 (Some localDial) freshWorld))
     = [''juju-db-v2'' \<mapsto> exampleService]
   \<and> running (snd (ensureMongoServer quietEnv ''10.0.0.1'' ''/var/lib/x'' 37017 (Some localDial) freshWorld))
     = {''juju-db-v2''}
   \<and> Name exampleService = ''juju-db-v2''
   \<and> sublist '' --port 37017'' (Cmd exampleService)
   \<and> sublist '' --replSet juju'' (Cmd exampleService)
   \<and> filter isInstall (ops (trace (snd (ensureMongoServer quietEnv ''10.0.0.1'' ''/var/lib/x'' 37017
                                          (Some localDial) freshWorld))))
     = [OpInstall exampleService]
   \<and> filter isStart (ops (trace (snd (ensureMongoServer quietEnv ''10.0.0.1'' ''/var/lib/x'' 37017
                                        (Some localDial) freshWorld))))
     = [OpStart ''juju-db-v2'']
   \<and> filter isQuery (ops (trace (snd (ensureMongoServer quietEnv ''10.0.0.1'' ''/var/lib/x'' 37017
                                        (Some localDial) freshWorld))))
     = [OpCurrentConfig]
   \<and> filter isInitiate (ops (trace (snd (ensureMongoServer quietEnv ''10.0.0.1'' ''/var/lib/x'' 37017
                                           (Some localDial) freshWorld))))
     = [OpInitiate ''10.0.0.1:37017'' ''juju'']
   \<and> replicaSet (snd (ensureMongoServer quietEnv ''10.0.0.1'' ''/var/lib/x'' 37017 (Some localDial) freshWorld))
     = Some \<lparr>rsName = ''juju'', rsMembers = [''10.0.0.1:37017'']\<rparr>
   \<and> files (snd (ensureMongoServer quietEnv ''10.0.0.1'' ''/var/lib/x'' 37017 (Some localDial) freshWorld))
     = (files freshWorld)
         (''/var/lib/x/db'' \<mapsto> Dir 448,
          ''/var/lib/x/db/journal'' \<mapsto> Dir 448,
          ''/var/lib/x/db/journal/prealloc.0'' \<mapsto> File 448 (replicate (1024 * 1024) 0),
          ''/var/lib/x/db/journal/prealloc.1'' \<mapsto> File 448 (replicate (1024 * 1024) 0),
          ''/var/lib/x/db/journal/prealloc.2'' \<mapsto> File 448 (replicate (1024 * 1024) 0))"
proof -
  have "services freshWorld = Map.empty" by (simp add: freshWorld_def)
  with full_run_ok full_run_trace full_run_counts full_run_state(1,2,3) exampleService_flags
       full_run_files
  show ?thesis by (intro conjI)
qed

text \<open>
  In that scenario a legacy removal is attempted all the same: the stop-and-remove of
  \<^verbatim>\<open>juju-db\<close> is among the calls of the pass.
\<close>

theorem end_to_end_removal_attempted_counterexample:
  "OpStopAndRemove ''juju-db''
     \<in> set (ops (new_events freshWorld
                    (snd (ensureMongoServer quietEnv ''10.0.0.1'' ''/var/lib/x'' 37017
                            (Some localDial) freshWorld))))"
proof -
  have "new_events freshWorld
          (snd (ensureMongoServer quietEnv ''10.0.0.1'' ''/var/lib/x'' 37017 (Some localDial) freshWorld))
        = trace (snd (ensureMongoServer quietEnv ''10.0.0.1'' ''/var/lib/x'' 37017 (Some localDial) freshWorld))"
    by (simp add: new_events_def freshWorld_def)
  then show ?thesis
    unfolding full_run_trace by (simp add: ops_def)
qed

end
